theory Spec2Isabelle
  imports Main "HOL-Library.FSet"
begin

section \<open>Values of the configuration merger\<close>

text \<open>
  The program (\<^verbatim>\<open>config_merger.py\<close>) works on the values a JSON or YAML reader returns,
  and on the \<^verbatim>\<open>set\<close> values its own \<^verbatim>\<open>and\<close>/\<^verbatim>\<open>or\<close> combinators build.
  A scalar is \<^verbatim>\<open>None\<close>, a \<^verbatim>\<open>bool\<close>, an \<^verbatim>\<open>int\<close> or a \<^verbatim>\<open>str\<close> (floats and tuples are left
  out). A \<^verbatim>\<open>dict\<close> is an association list in insertion order, with string keys; a
  \<^verbatim>\<open>set\<close> holds hashable values only, which here are the scalars.
  Every list and dictionary is taken to occur once in the arguments of a call (a tree, as
  a parser builds it, and two arguments that share nothing), so that a mutation in place
  is the replacement of a value; where the program keeps an object and changes it later
  (the cache of the overlay), the model carries the changed value along.
\<close>

datatype pyerr = TypeError | AttributeError | KeyError

datatype scalar = SNone | SBool bool | SInt int | SStr string

datatype pyval =
    Scalar scalar
  | PList "pyval list"
  | PDict "(string \<times> pyval) list"
  | PSet "scalar fset"

type_synonym pydict = "(string \<times> pyval) list"

abbreviation PNone :: pyval where "PNone \<equiv> Scalar SNone"
abbreviation PBool :: "bool \<Rightarrow> pyval" where "PBool b \<equiv> Scalar (SBool b)"
abbreviation PInt :: "int \<Rightarrow> pyval" where "PInt i \<equiv> Scalar (SInt i)"
abbreviation PStr :: "string \<Rightarrow> pyval" where "PStr s \<equiv> Scalar (SStr s)"

subsection \<open>Dictionary operations\<close>

text \<open>\<^verbatim>\<open>k in d\<close>, \<^verbatim>\<open>d.get(k, default)\<close>, \<^verbatim>\<open>d[k] = v\<close> (an existing key keeps its
  place, a new key goes last), \<^verbatim>\<open>d.pop(k, default)\<close> and \<^verbatim>\<open>{**a, **b}\<close>.\<close>

definition dict_keys :: "pydict \<Rightarrow> string list" where
  "dict_keys d = map fst d"

definition dict_has :: "pydict \<Rightarrow> string \<Rightarrow> bool" where
  "dict_has d k = (k \<in> set (dict_keys d))"

definition dict_get :: "pydict \<Rightarrow> string \<Rightarrow> pyval \<Rightarrow> pyval" where
  "dict_get d k dflt = (case map_of d k of None \<Rightarrow> dflt | Some v \<Rightarrow> v)"

fun dict_set :: "pydict \<Rightarrow> string \<Rightarrow> pyval \<Rightarrow> pydict" where
  "dict_set [] k v = [(k, v)]"
| "dict_set ((k', v') # d) k v =
     (if k' = k then (k, v) # d else (k', v') # dict_set d k v)"

definition dict_del :: "pydict \<Rightarrow> string \<Rightarrow> pydict" where
  "dict_del d k = filter (\<lambda>kv. fst kv \<noteq> k) d"

definition dict_pop :: "pydict \<Rightarrow> string \<Rightarrow> pyval \<Rightarrow> pyval \<times> pydict" where
  "dict_pop d k dflt = (dict_get d k dflt, dict_del d k)"

definition dict_update :: "pydict \<Rightarrow> pydict \<Rightarrow> pydict" where
  "dict_update a b = foldl (\<lambda>acc kv. dict_set acc (fst kv) (snd kv)) a b"

text \<open>A well-formed dictionary has each key once, in every dictionary it holds.\<close>

fun wf_val :: "pyval \<Rightarrow> bool" where
  "wf_val (Scalar s) = True"
| "wf_val (PList xs) = list_all wf_val xs"
| "wf_val (PDict d) = (distinct (map fst d) \<and> list_all (\<lambda>kv. wf_val (snd kv)) d)"
| "wf_val (PSet s) = True"

definition wf_dict :: "pydict \<Rightarrow> bool" where
  "wf_dict d = wf_val (PDict d)"

section \<open>Core merging\<close>

definition DEFAULT_METADATA_KEY :: string where
  "DEFAULT_METADATA_KEY = ''__CONFIG-MERGER-META__''"

subsection \<open>The combinators of \<^verbatim>\<open>META_funcs['combine']\<close>\<close>

datatype strategy = Concat | Keep | Replace | And | Or

text \<open>\<^verbatim>\<open>META_funcs['combine'][x]\<close>: a dictionary lookup. An unhashable \<open>x\<close> is a
  \<^verbatim>\<open>TypeError\<close>, any other value that is not one of the five names a \<^verbatim>\<open>KeyError\<close>.\<close>

fun combine_lookup :: "pyval \<Rightarrow> pyerr + strategy" where
  "combine_lookup (Scalar (SStr s)) =
     (if s = ''concat'' then Inr Concat
      else if s = ''keep'' then Inr Keep
      else if s = ''replace'' then Inr Replace
      else if s = ''and'' then Inr And
      else if s = ''or'' then Inr Or
      else Inl KeyError)"
| "combine_lookup (Scalar _) = Inl KeyError"
| "combine_lookup _ = Inl TypeError"

text \<open>\<^verbatim>\<open>a + b\<close>: numbers add (a \<^verbatim>\<open>bool\<close> is the integer 0 or 1), strings and lists
  concatenate, every other pair of operands is a \<^verbatim>\<open>TypeError\<close>.\<close>

fun py_add :: "pyval \<Rightarrow> pyval \<Rightarrow> pyerr + pyval" where
  "py_add (PList xs) (PList ys) = Inr (PList (xs @ ys))"
| "py_add (Scalar (SStr s)) (Scalar (SStr t)) = Inr (PStr (s @ t))"
| "py_add (Scalar (SInt i)) (Scalar (SInt j)) = Inr (PInt (i + j))"
| "py_add (Scalar (SInt i)) (Scalar (SBool c)) = Inr (PInt (i + of_bool c))"
| "py_add (Scalar (SBool b)) (Scalar (SInt j)) = Inr (PInt (of_bool b + j))"
| "py_add (Scalar (SBool b)) (Scalar (SBool c)) = Inr (PInt (of_bool b + of_bool c))"
| "py_add _ _ = Inl TypeError"

text \<open>The key under which a hashable value sits in a set: \<^verbatim>\<open>True == 1\<close> and
  \<^verbatim>\<open>False == 0\<close> with equal hashes, so a \<^verbatim>\<open>bool\<close> and its integer are one element.\<close>

fun hash_key :: "scalar \<Rightarrow> scalar" where
  "hash_key (SBool b) = SInt (of_bool b)"
| "hash_key s = s"

text \<open>\<^verbatim>\<open>set(x)\<close>: the elements of a list (all of them hashable, or \<^verbatim>\<open>TypeError\<close>), the
  characters of a string, the keys of a dictionary, a set itself; \<^verbatim>\<open>None\<close> and numbers
  are not iterable.\<close>

fun hashable :: "pyval \<Rightarrow> bool" where
  "hashable (Scalar s) = True"
| "hashable _ = False"

fun the_scalar :: "pyval \<Rightarrow> scalar" where
  "the_scalar (Scalar s) = s"
| "the_scalar _ = SNone"

definition list_elements :: "pyval list \<Rightarrow> scalar fset" where
  "list_elements xs = fset_of_list (map (hash_key \<circ> the_scalar) xs)"

fun py_set :: "pyval \<Rightarrow> pyerr + scalar fset" where
  "py_set (PList xs) =
     (if list_all hashable xs then Inr (list_elements xs) else Inl TypeError)"
| "py_set (PSet s) = Inr s"
| "py_set (PDict d) = Inr (fset_of_list (map (\<lambda>kv. SStr (fst kv)) d))"
| "py_set (Scalar (SStr s)) = Inr (fset_of_list (map (\<lambda>c. SStr [c]) s))"
| "py_set (Scalar _) = Inl TypeError"

fun combine :: "strategy \<Rightarrow> pyval \<Rightarrow> pyval \<Rightarrow> pyerr + pyval" where
  "combine Concat a b = py_add a b"
| "combine Keep a b = Inr a"
| "combine Replace a b = Inr b"
| "combine And a b =
     (case py_set a of Inl e \<Rightarrow> Inl e | Inr sa \<Rightarrow>
       (case py_set b of Inl e \<Rightarrow> Inl e | Inr sb \<Rightarrow> Inr (PSet (sa |\<inter>| sb))))"
| "combine Or a b =
     (case py_set a of Inl e \<Rightarrow> Inl e | Inr sa \<Rightarrow>
       (case py_set b of Inl e \<Rightarrow> Inl e | Inr sb \<Rightarrow> Inr (PSet (sa |\<union>| sb))))"

subsection \<open>\<^verbatim>\<open>update_dict_subkeys\<close>\<close>

text \<open>\<^verbatim>\<open>{**x}\<close> needs a mapping.\<close>

fun as_mapping :: "pyval \<Rightarrow> pyerr + pydict" where
  "as_mapping (PDict m) = Inr m"
| "as_mapping _ = Inl TypeError"

text \<open>
  \<^verbatim>\<open>update_dict_subkeys(d, u, none_values_are_transparent, **options)\<close> changes both of
  its arguments in place: the metadata entry is popped from \<open>d\<close> and from \<open>u\<close>, and the
  recursive call on \<^verbatim>\<open>d.get(k, {})\<close> and \<open>v\<close> does the same to the dictionaries inside.
  The model returns the pair of \<open>d\<close> (the Python return value) and \<open>u\<close> as the call
  leaves them, or the exception raised. \<open>mk\<close> is \<^verbatim>\<open>options['metadata_key']\<close>; the
  recursive call passes \<^verbatim>\<open>**options\<close> only, so \<^verbatim>\<open>none_values_are_transparent\<close> is at
  its default \<^verbatim>\<open>False\<close> there.
  \<open>merge_loop\<close> is the \<^verbatim>\<open>for k, v in u.items()\<close> loop, over the items still to visit.
\<close>

lemma size_list_dict_del: "size_list f (dict_del u k) \<le> size_list f u"
  unfolding dict_del_def by (induction u) auto

function update_dict_subkeys :: "bool \<Rightarrow> string \<Rightarrow> pydict \<Rightarrow> pydict \<Rightarrow> pyerr + (pydict \<times> pydict)"
  and merge_loop :: "bool \<Rightarrow> string \<Rightarrow> pydict \<Rightarrow> pydict \<Rightarrow> pydict \<Rightarrow> pydict \<Rightarrow> pyerr + (pydict \<times> pydict)"
where
  "update_dict_subkeys transparent mk d u =
     (case dict_pop d mk (PDict []) of (dmeta, d1) \<Rightarrow>
       (case as_mapping dmeta of Inl e \<Rightarrow> Inl e | Inr dm \<Rightarrow>
         (case dict_pop u mk (PDict []) of (umeta, u1) \<Rightarrow>
           (case as_mapping umeta of Inl e \<Rightarrow> Inl e | Inr um \<Rightarrow>
              merge_loop transparent mk (dict_update dm um) u1 d1 u1))))"
| "merge_loop transparent mk meta [] d u = Inr (d, u)"
| "merge_loop transparent mk meta ((k, v) # items) d u =
     (case v of
        PDict vm \<Rightarrow>
          (case dict_get d k (PDict []) of
             PDict dk \<Rightarrow>
               (case update_dict_subkeys False mk dk vm of
                  Inl e \<Rightarrow> Inl e
                | Inr (r, vm') \<Rightarrow>
                    merge_loop transparent mk meta items
                      (dict_set d k (PDict r)) (dict_set u k (PDict vm')))
           | Scalar s \<Rightarrow> Inl AttributeError
           | PList xs \<Rightarrow> Inl TypeError
           | PSet xs \<Rightarrow> Inl TypeError)
      | Scalar s \<Rightarrow>
          (if transparent \<and> dict_has d k \<and> s = SNone
           then merge_loop transparent mk meta items d u
           else merge_loop transparent mk meta items (dict_set d k (Scalar s)) u)
      | _ \<Rightarrow>
          (case combine_lookup (dict_get meta k (PStr ''concat'')) of
             Inl e \<Rightarrow> Inl e
           | Inr f \<Rightarrow>
               (case combine f (dict_get d k (PList [])) v of
                  Inl e \<Rightarrow> Inl e
                | Inr r \<Rightarrow> merge_loop transparent mk meta items (dict_set d k r) u)))"
  by pat_completeness auto

termination
  apply (relation "measure (\<lambda>x. case x of
            Inl (t, mk, d, u) \<Rightarrow> Suc (size_list (size_prod (\<lambda>_. 0) size) u)
          | Inr (t, mk, meta, items, d, u) \<Rightarrow> size_list (size_prod (\<lambda>_. 0) size) items)")
      apply simp
     apply (auto simp: dict_pop_def size_list_dict_del le_imp_less_Suc)
  done

text \<open>The return value of \<^verbatim>\<open>update_dict_subkeys\<close>: the merged \<open>d\<close>.\<close>

definition merged :: "bool \<Rightarrow> string \<Rightarrow> pydict \<Rightarrow> pydict \<Rightarrow> pyerr + pydict" where
  "merged transparent mk d u = map_sum id fst (update_dict_subkeys transparent mk d u)"

section \<open>Template variables\<close>

subsection \<open>Strings: \<^verbatim>\<open>findall\<close>, \<^verbatim>\<open>replace\<close>, \<^verbatim>\<open>str\<close>\<close>

definition newline :: char where
  "newline = CHR 0x0A"

text \<open>
  \<^verbatim>\<open>REGEX_TEMPLATE_VAR = re.compile(r'\${(.+?)}')\<close> matched at the head of a string: a
  dollar and an opening brace, one character that is not a newline, then as few
  characters other than newline as reach a closing brace. The result is the group (the
  name) and the text after the match.
\<close>

fun match_template_var :: "string \<Rightarrow> (string \<times> string) option" where
  "match_template_var (c1 # c2 # c3 # cs) =
     (if c1 = CHR ''$'' \<and> c2 = CHR ''{'' \<and> c3 \<noteq> newline
      then (case dropWhile (\<lambda>c. c \<noteq> CHR ''}'' \<and> c \<noteq> newline) cs of
              [] \<Rightarrow> None
            | c # rest \<Rightarrow>
                if c = CHR ''}''
                then Some (c3 # takeWhile (\<lambda>c. c \<noteq> CHR ''}'' \<and> c \<noteq> newline) cs, rest)
                else None)
      else None)"
| "match_template_var _ = None"

lemma match_template_var_shorter:
  assumes "match_template_var s = Some (name, rest)"
  shows "length rest < length s"
proof (cases s rule: match_template_var.cases)
  case (1 c1 c2 c3 cs)
  let ?P = "\<lambda>c. c \<noteq> CHR ''}'' \<and> c \<noteq> newline"
  from assms 1 obtain c where "dropWhile ?P cs = c # rest"
    by (auto split: if_splits list.splits)
  then have "length rest < length (dropWhile ?P cs)"
    by simp
  also have "\<dots> \<le> length cs"
    by (rule length_dropWhile_le)
  finally show ?thesis
    using 1 by simp
qed (use assms in simp_all)

text \<open>\<^verbatim>\<open>REGEX_TEMPLATE_VAR.findall(value)\<close>: the names of the matches, left to right,
  each search starting where the last match ended, or one character on when there is
  no match at a position.\<close>

function findall :: "string \<Rightarrow> string list" where
  "findall [] = []"
| "findall (c # cs) =
     (case match_template_var (c # cs) of
        Some (name, rest) \<Rightarrow> name # findall rest
      | None \<Rightarrow> findall cs)"
  by pat_completeness auto
termination
  by (relation "measure length") (auto dest: match_template_var_shorter)

text \<open>\<^verbatim>\<open>s.replace(old, new)\<close>: every occurrence of \<open>old\<close>, left to right, without
  overlap; an empty \<open>old\<close> matches before each character and at the end.\<close>

function replace_nonempty :: "string \<Rightarrow> string \<Rightarrow> string \<Rightarrow> string" where
  "replace_nonempty old new [] = []"
| "replace_nonempty old new (c # cs) =
     (if old \<noteq> [] \<and> take (length old) (c # cs) = old
      then new @ replace_nonempty old new (drop (length old) (c # cs))
      else c # replace_nonempty old new cs)"
  by pat_completeness auto
termination
  by (relation "measure (\<lambda>(old, new, s). length s)") auto

definition py_replace :: "string \<Rightarrow> string \<Rightarrow> string \<Rightarrow> string" where
  "py_replace s old new =
     (if old = [] then new @ concat (map (\<lambda>c. c # new) s) else replace_nonempty old new s)"

text \<open>\<^verbatim>\<open>str(x)\<close> of a scalar. For a list, a dictionary or a set it is Python's
  \<^verbatim>\<open>repr\<close>, which is not part of this program: the parameter \<open>repr\<close>.\<close>

function str_nat :: "nat \<Rightarrow> string" where
  "str_nat n =
     (if n < 10 then [''0123456789'' ! n]
      else str_nat (n div 10) @ [''0123456789'' ! (n mod 10)])"
  by pat_completeness auto
termination
  by (relation "measure id") auto

definition str_int :: "int \<Rightarrow> string" where
  "str_int i = (if i < 0 then CHR ''-'' # str_nat (nat (- i)) else str_nat (nat i))"

fun py_str :: "(pyval \<Rightarrow> string) \<Rightarrow> pyval \<Rightarrow> string" where
  "py_str repr (Scalar SNone) = ''None''"
| "py_str repr (Scalar (SBool b)) = (if b then ''True'' else ''False'')"
| "py_str repr (Scalar (SInt i)) = str_int i"
| "py_str repr (Scalar (SStr s)) = s"
| "py_str repr v = repr v"

subsection \<open>The scope chain\<close>

text \<open>
  \<^verbatim>\<open>collections.ChainMap(data, flat_parent_replacements)\<close> is a view of live
  dictionaries: \<open>data\<close> is the dictionary being rewritten, and each ancestor holds, under
  the key the walk went down, the very dictionary being rewritten below it. The chain is
  the current dictionary and the ancestors, nearest first, each with that key;
  a lookup takes the first dictionary that has the name.
\<close>

type_synonym scope = "(pydict \<times> string) list"

fun chain_get :: "pydict \<Rightarrow> scope \<Rightarrow> string \<Rightarrow> pyval option" where
  "chain_get data [] name = map_of data name"
| "chain_get data ((parent, k) # ancestors) name =
     (case map_of data name of
        Some v \<Rightarrow> Some v
      | None \<Rightarrow> chain_get (dict_set parent k (PDict data)) ancestors name)"

subsection \<open>\<^verbatim>\<open>replace_template_variables\<close>\<close>

definition TEMPLATE_REPLACEMENT :: "string \<Rightarrow> string" where
  "TEMPLATE_REPLACEMENT token = ''${'' @ token @ ''}''"

text \<open>The inner function \<^verbatim>\<open>_replace_template\<close>: the tokens are found once, in the value
  as it comes in; each is then replaced in the value as it stands.\<close>

definition replace_tokens :: "(pyval \<Rightarrow> string) \<Rightarrow> pydict \<Rightarrow> scope \<Rightarrow> string list \<Rightarrow> string \<Rightarrow> string" where
  "replace_tokens repr data ancestors tokens s =
     foldl (\<lambda>value token.
              py_replace value (TEMPLATE_REPLACEMENT token)
                (py_str repr (case chain_get data ancestors token of
                                None \<Rightarrow> PStr [] | Some v \<Rightarrow> v)))
       s tokens"

fun replace_template :: "(pyval \<Rightarrow> string) \<Rightarrow> pydict \<Rightarrow> scope \<Rightarrow> pyval \<Rightarrow> pyval" where
  "replace_template repr data ancestors (Scalar (SStr s)) =
     PStr (replace_tokens repr data ancestors (findall s) s)"
| "replace_template repr data ancestors v = v"

text \<open>
  \<^verbatim>\<open>replace_template_variables(data, flat_parent_replacements)\<close> rewrites \<open>data\<close> in
  place and returns it. \<open>template_loop\<close> is the loop \<^verbatim>\<open>for k, v in data.items()\<close>
  over the items still to visit. A set has no slice assignment: \<^verbatim>\<open>v[:] = ...\<close> is a
  \<^verbatim>\<open>TypeError\<close>.
\<close>

function replace_template_variables :: "(pyval \<Rightarrow> string) \<Rightarrow> pydict \<Rightarrow> scope \<Rightarrow> pyerr + pydict"
  and template_loop :: "(pyval \<Rightarrow> string) \<Rightarrow> pydict \<Rightarrow> pydict \<Rightarrow> scope \<Rightarrow> pyerr + pydict"
where
  "replace_template_variables repr data ancestors = template_loop repr data data ancestors"
| "template_loop repr [] data ancestors = Inr data"
| "template_loop repr ((k, v) # items) data ancestors =
     (case v of
        Scalar s \<Rightarrow>
          (case s of
             SStr t \<Rightarrow>
               template_loop repr items
                 (dict_set data k (replace_template repr data ancestors v)) ancestors
           | _ \<Rightarrow> template_loop repr items data ancestors)
      | PDict m \<Rightarrow>
          (case replace_template_variables repr m ((data, k) # ancestors) of
             Inl e \<Rightarrow> Inl e
           | Inr m' \<Rightarrow> template_loop repr items (dict_set data k (PDict m')) ancestors)
      | PList xs \<Rightarrow>
          template_loop repr items
            (dict_set data k (PList (map (replace_template repr data ancestors) xs))) ancestors
      | PSet xs \<Rightarrow> Inl TypeError)"
  by pat_completeness auto
termination
  by (relation "measure (\<lambda>x. case x of
            Inl (repr, data, ancestors) \<Rightarrow> Suc (size_list (size_prod (\<lambda>_. 0) size) data)
          | Inr (repr, items, data, ancestors) \<Rightarrow> size_list (size_prod (\<lambda>_. 0) size) items)")
    auto

section \<open>Folder tree merging\<close>

text \<open>
  \<^verbatim>\<open>VariableOverlay\<close> reads fragment files below its root folder \<^verbatim>\<open>_path\<close>. The files
  and their reader are outside the program: \<open>fs folder name\<close> is \<open>None\<close> when
  \<^verbatim>\<open>os.path.exists\<close> is false for \<^verbatim>\<open><_path>/<folder>/<name>.json\<close>, and otherwise
  what \<^verbatim>\<open>_load_data_from_source\<close> does with the file: the mapping it returns or the
  exception it raises.
  The argument \<^verbatim>\<open>names\<close> (and \<^verbatim>\<open>include_sub_folders\<close>) is one string, a tuple of strings
  or a list of strings.
\<close>

type_synonym filesystem = "string \<Rightarrow> string \<Rightarrow> (pyerr + pydict) option"

datatype names = Str string | Tuple "string list" | List "string list"

fun as_tuple :: "names \<Rightarrow> string list" where
  "as_tuple (Str s) = [s]"
| "as_tuple (Tuple ns) = ns"
| "as_tuple (List ns) = ns"

text \<open>The cache hashes the arguments of a call, and a list has no hash.\<close>

fun hashable_names :: "names \<Rightarrow> bool" where
  "hashable_names (List ns) = False"
| "hashable_names _ = True"

text \<open>
  Both methods are wrapped in \<^verbatim>\<open>lru_cache(maxsize=128)\<close>. A cache is the list of its
  entries, the most recently used first: a hit moves the entry to the front, a miss
  puts the new entry there and drops what is beyond 128 entries; a call that raises
  leaves no entry. The state of an overlay object is its two caches.
\<close>

definition lru_touch :: "('k \<times> 'v) list \<Rightarrow> 'k \<Rightarrow> 'v \<Rightarrow> ('k \<times> 'v) list" where
  "lru_touch cache k v = (k, v) # filter (\<lambda>kv. fst kv \<noteq> k) cache"

definition lru_insert :: "('k \<times> 'v) list \<Rightarrow> 'k \<Rightarrow> 'v \<Rightarrow> ('k \<times> 'v) list" where
  "lru_insert cache k v = take 128 ((k, v) # cache)"

text \<open>A cached dictionary changed in place.\<close>

definition cache_mutate :: "('k \<times> 'v) list \<Rightarrow> 'k \<Rightarrow> 'v \<Rightarrow> ('k \<times> 'v) list" where
  "cache_mutate cache k v = map (\<lambda>kv. if fst kv = k then (k, v) else kv) cache"

record overlay =
  data_cache :: "((string \<times> string) \<times> pydict) list"
  get_cache :: "((names \<times> names) \<times> pydict) list"

definition new_overlay :: overlay where
  "new_overlay = \<lparr>data_cache = [], get_cache = []\<rparr>"

definition DEFAULT_FILENAME :: string where
  "DEFAULT_FILENAME = ''_default''"

text \<open>\<^verbatim>\<open>_get_data(self, path, name)\<close>.\<close>

definition get_data :: "filesystem \<Rightarrow> overlay \<Rightarrow> string \<Rightarrow> string \<Rightarrow> pyerr + (pydict \<times> overlay)" where
  "get_data fs st path name =
     (case map_of (data_cache st) (path, name) of
        Some m \<Rightarrow> Inr (m, st\<lparr>data_cache := lru_touch (data_cache st) (path, name) m\<rparr>)
      | None \<Rightarrow>
          (case fs path name of
             None \<Rightarrow> Inr ([], st\<lparr>data_cache := lru_insert (data_cache st) (path, name) []\<rparr>)
           | Some (Inl e) \<Rightarrow> Inl e
           | Some (Inr m) \<Rightarrow>
               Inr (m, st\<lparr>data_cache := lru_insert (data_cache st) (path, name) m\<rparr>)))"

text \<open>The two loops of \<^verbatim>\<open>get\<close>. \<^verbatim>\<open>update_dict_subkeys(data, self._get_data(folder, name))\<close>
  changes the cached fragment in place as well as \<open>data\<close>.\<close>

fun names_loop :: "filesystem \<Rightarrow> string \<Rightarrow> string list \<Rightarrow> pydict \<Rightarrow> overlay \<Rightarrow> pyerr + (pydict \<times> overlay)" where
  "names_loop fs folder [] data st = Inr (data, st)"
| "names_loop fs folder (name # names) data st =
     (case get_data fs st folder name of
        Inl e \<Rightarrow> Inl e
      | Inr (u, st1) \<Rightarrow>
          (case update_dict_subkeys False DEFAULT_METADATA_KEY data u of
             Inl e \<Rightarrow> Inl e
           | Inr (data', u') \<Rightarrow>
               names_loop fs folder names data'
                 (st1\<lparr>data_cache := cache_mutate (data_cache st1) (folder, name) u'\<rparr>)))"

fun folders_loop :: "filesystem \<Rightarrow> string list \<Rightarrow> string list \<Rightarrow> pydict \<Rightarrow> overlay \<Rightarrow> pyerr + (pydict \<times> overlay)" where
  "folders_loop fs [] names data st = Inr (data, st)"
| "folders_loop fs (folder # folders) names data st =
     (case names_loop fs folder names data st of
        Inl e \<Rightarrow> Inl e
      | Inr (data', st') \<Rightarrow> folders_loop fs folders names data' st')"

text \<open>\<^verbatim>\<open>get(self, names=(), include_sub_folders=())\<close>.\<close>

definition get :: "filesystem \<Rightarrow> overlay \<Rightarrow> names \<Rightarrow> names \<Rightarrow> pyerr + (pydict \<times> overlay)" where
  "get fs st names include_sub_folders =
     (if hashable_names names \<and> hashable_names include_sub_folders
      then
       (case map_of (get_cache st) (names, include_sub_folders) of
          Some data \<Rightarrow>
            Inr (data, st\<lparr>get_cache := lru_touch (get_cache st) (names, include_sub_folders) data\<rparr>)
        | None \<Rightarrow>
            (case folders_loop fs ('''' # as_tuple include_sub_folders)
                    (DEFAULT_FILENAME # as_tuple names) [] st of
               Inl e \<Rightarrow> Inl e
             | Inr (data, st') \<Rightarrow>
                 Inr (data,
                      st'\<lparr>get_cache := lru_insert (get_cache st') (names, include_sub_folders) data\<rparr>)))
      else Inl TypeError)"

section \<open>Where the metadata key can be\<close>

text \<open>No dictionary anywhere in a value has the key \<open>mk\<close>.\<close>

fun meta_free :: "string \<Rightarrow> pyval \<Rightarrow> bool" where
  "meta_free mk (Scalar s) = True"
| "meta_free mk (PList xs) = list_all (meta_free mk) xs"
| "meta_free mk (PDict d) = (\<not> dict_has d mk \<and> list_all (\<lambda>kv. meta_free mk (snd kv)) d)"
| "meta_free mk (PSet s) = True"

text \<open>
  The dictionaries of a result \<open>r\<close> that a merge with the update \<open>u\<close> went through: \<open>r\<close>
  itself and, below each key at which \<open>u\<close> holds a dictionary, the dictionary \<open>r\<close> holds
  there, against that dictionary of \<open>u\<close>. None of them has the key \<open>mk\<close>.
\<close>

fun meta_consumed :: "string \<Rightarrow> pydict \<Rightarrow> pydict \<Rightarrow> bool" where
  "meta_consumed mk u r =
     (\<not> dict_has r mk \<and>
      list_all (\<lambda>kv. fst kv = mk \<or>
                  (case snd kv of
                     PDict vm \<Rightarrow>
                       (case map_of r (fst kv) of
                          Some (PDict rk) \<Rightarrow> meta_consumed mk vm rk
                        | _ \<Rightarrow> False)
                   | _ \<Rightarrow> True)) u)"

text \<open>
  Metadata stripping, as the properties of the merge speak of it: the mapping without the
  metadata entry, and so for the mappings below its keys (not for those inside a
  sequence).
\<close>

lemma size_dict_member:
  "(k, PDict vm) \<in> set u \<Longrightarrow>
   size_list (size_prod (\<lambda>_. 0) size) vm < size_list (size_prod (\<lambda>_. 0) size) u"
  by (induction u) auto

function strip_meta :: "string \<Rightarrow> pydict \<Rightarrow> pydict" where
  "strip_meta mk b =
     map (\<lambda>kv. (fst kv, case snd kv of PDict vm \<Rightarrow> PDict (strip_meta mk vm) | v \<Rightarrow> v))
       (dict_del b mk)"
  by pat_completeness auto
termination
proof (relation "measure (\<lambda>(mk, b). size_list (size_prod (\<lambda>_. 0) size) b)")
  fix mk :: string and b :: pydict and kv :: "string \<times> pyval" and vm :: pydict
  assume mem: "kv \<in> set (dict_del b mk)" and val: "snd kv = PDict vm"
  from mem have "kv \<in> set b"
    by (simp add: dict_del_def)
  with val have "(fst kv, PDict vm) \<in> set b"
    by (metis prod.collapse)
  then show "((mk, vm), (mk, b)) \<in> measure (\<lambda>(mk, b). size_list (size_prod (\<lambda>_. 0) size) b)"
    by (simp add: size_dict_member)
qed simp

text \<open>
  An update whose metadata, at every level, is a mapping that selects \<^verbatim>\<open>concat\<close> or
  \<^verbatim>\<open>replace\<close> for the keys that hold a list (with no metadata, or no entry for the
  key, the strategy is \<^verbatim>\<open>concat\<close>), and \<^verbatim>\<open>replace\<close> for those that hold a set.
\<close>

fun keeps_update :: "string \<Rightarrow> pydict \<Rightarrow> bool" where
  "keeps_update mk b =
     (case dict_get b mk (PDict []) of
        PDict m \<Rightarrow>
          list_all (\<lambda>kv. fst kv = mk \<or>
                      (case snd kv of
                         PDict vm \<Rightarrow> keeps_update mk vm
                       | PList xs \<Rightarrow>
                           combine_lookup (dict_get m (fst kv) (PStr ''concat''))
                             \<in> {Inr Concat, Inr Replace}
                       | PSet xs \<Rightarrow>
                           combine_lookup (dict_get m (fst kv) (PStr ''concat'')) = Inr Replace
                       | Scalar s \<Rightarrow> True)) b
      | _ \<Rightarrow> False)"

definition strip_entry :: "string \<Rightarrow> string \<times> pyval \<Rightarrow> string \<times> pyval" where
  "strip_entry mk kv = (fst kv, case snd kv of PDict vm \<Rightarrow> PDict (strip_meta mk vm) | v \<Rightarrow> v)"

declare meta_consumed.simps [simp del]
declare strip_meta.simps [simp del]
declare keeps_update.simps [simp del]

section \<open>Inputs on which nothing is raised\<close>




text \<open>A stand-in for Python's \<^verbatim>\<open>repr\<close> of containers, for the examples.\<close>

definition some_repr :: "pyval \<Rightarrow> string" where
  "some_repr v = ''<container>''"

section \<open>Strings with tokens\<close>












section \<open>The layers of an overlay\<close>

text \<open>
  The overlay as its description has it: the fragments of the folders (the current
  folder, then the sub folders) and, in each folder, of the names (the default name, then
  the names given), each the mapping read from its file or the empty mapping when there is
  no file, merged in that order into an empty mapping.
\<close>

definition fragment :: "filesystem \<Rightarrow> string \<Rightarrow> string \<Rightarrow> pyerr + pydict" where
  "fragment fs folder name = (case fs folder name of None \<Rightarrow> Inr [] | Some x \<Rightarrow> x)"

fun merge_all :: "pydict \<Rightarrow> (pyerr + pydict) list \<Rightarrow> pyerr + pydict" where
  "merge_all data [] = Inr data"
| "merge_all data (x # xs) =
     (case x of
        Inl e \<Rightarrow> Inl e
      | Inr u \<Rightarrow>
          (case merged False DEFAULT_METADATA_KEY data u of
             Inl e \<Rightarrow> Inl e
           | Inr data' \<Rightarrow> merge_all data' xs))"

definition layers :: "filesystem \<Rightarrow> string list \<Rightarrow> string list \<Rightarrow> pyerr + pydict" where
  "layers fs names sub_folders =
     merge_all []
       (map (\<lambda>p. fragment fs (fst p) (snd p))
          (List.product ('''' # sub_folders) (DEFAULT_FILENAME # names)))"

text \<open>Two folders of fragment files, for the examples.\<close>

definition prod_files :: filesystem where
  "prod_files folder name =
     (if folder = '''' \<and> name = ''_default'' then Some (Inr [(''x'', PInt 1)])
      else if folder = '''' \<and> name = ''prod'' then Some (Inr [(''x'', PInt 2)])
      else None)"

definition replace_files :: filesystem where
  "replace_files folder name =
     (if folder = '''' \<and> name = ''_default'' then Some (Inr [(''l'', PList [PInt 0])])
      else if folder = '''' \<and> name = ''prod''
      then Some (Inr [(''l'', PList [PInt 1]),
                      (DEFAULT_METADATA_KEY, PDict [(''l'', PStr ''replace'')])])
      else None)"

section \<open>The public function\<close>

text \<open>
  \<^verbatim>\<open>merge(*sources, **options)\<close>, on sources already read by \<^verbatim>\<open>_load_data_from_source\<close>:
  \<^verbatim>\<open>_reduce_data_sources\<close> folds \<^verbatim>\<open>update_dict_subkeys\<close> over them from an empty
  dictionary, and \<^verbatim>\<open>replace_template_variables\<close> rewrites the result.
\<close>

fun reduce_data_sources :: "bool \<Rightarrow> string \<Rightarrow> pydict \<Rightarrow> pydict list \<Rightarrow> pyerr + pydict" where
  "reduce_data_sources transparent mk acc [] = Inr acc"
| "reduce_data_sources transparent mk acc (source # sources) =
     (case merged transparent mk acc source of
        Inl e \<Rightarrow> Inl e
      | Inr acc' \<Rightarrow> reduce_data_sources transparent mk acc' sources)"

definition merge :: "(pyval \<Rightarrow> string) \<Rightarrow> bool \<Rightarrow> string \<Rightarrow> pydict list \<Rightarrow> pyerr + pydict" where
  "merge repr transparent mk sources =
     (case reduce_data_sources transparent mk [] sources of
        Inl e \<Rightarrow> Inl e
      | Inr data \<Rightarrow> replace_template_variables repr data [])"

section \<open>Properties of the dictionary operations\<close>

lemma map_of_dict_set: "map_of (dict_set d k v) k' = (if k' = k then Some v else map_of d k')"
  by (induction d) auto

lemma map_of_dict_del: "map_of (dict_del d k) k' = (if k' = k then None else map_of d k')"
  unfolding dict_del_def by (induction d) auto

lemma dict_has_map_of: "dict_has d k \<longleftrightarrow> map_of d k \<noteq> None"
  by (simp add: dict_has_def dict_keys_def map_of_eq_None_iff)

lemma keys_dict_set: "set (map fst (dict_set d k v)) = insert k (set (map fst d))"
  by (induction d) force+

lemma distinct_dict_set: "distinct (map fst d) \<Longrightarrow> distinct (map fst (dict_set d k v))"
proof (induction d)
  case Nil
  then show ?case by simp
next
  case (Cons kv d)
  have "fst kv \<notin> set (map fst (dict_set d k v))" if "fst kv \<noteq> k"
    using that Cons.prems by (simp only: keys_dict_set) simp
  with Cons show ?case
    by (cases kv) auto
qed

lemma distinct_dict_del: "distinct (map fst d) \<Longrightarrow> distinct (map fst (dict_del d k))"
  unfolding dict_del_def by (simp add: distinct_map_filter)

section \<open>The examples of the docstrings\<close>

text \<open>The model run on the examples that the source gives for its functions.\<close>

lemma doc_update_dict_subkeys:
  "merged False DEFAULT_METADATA_KEY
     [(''a'', PInt 1), (''b'', PList [PInt 2]),
      (''c'', PDict [(''d'', PInt 4), (''e'', PInt 5), (''f'', PDict [(''g'', PInt 7)])])]
     [(''c'', PDict [(''d'', PInt 999)])]
   = Inr [(''a'', PInt 1), (''b'', PList [PInt 2]),
          (''c'', PDict [(''d'', PInt 999), (''e'', PInt 5), (''f'', PDict [(''g'', PInt 7)])])]"
  "merged False DEFAULT_METADATA_KEY
     [(''a'', PInt 1), (''b'', PList [PInt 2]),
      (''c'', PDict [(''d'', PInt 999), (''e'', PInt 5), (''f'', PDict [(''g'', PInt 7)])])]
     [(''h'', PInt 8)]
   = Inr [(''a'', PInt 1), (''b'', PList [PInt 2]),
          (''c'', PDict [(''d'', PInt 999), (''e'', PInt 5), (''f'', PDict [(''g'', PInt 7)])]),
          (''h'', PInt 8)]"
  "merged False DEFAULT_METADATA_KEY
     [(''a'', PInt 1), (''b'', PList [PInt 2]),
      (''c'', PDict [(''d'', PInt 999), (''e'', PInt 5), (''f'', PDict [(''g'', PInt 7)])]),
      (''h'', PInt 8)]
     [(''b'', PList [PInt 777, PDict [(''i'', PInt 9)]])]
   = Inr [(''a'', PInt 1), (''b'', PList [PInt 2, PInt 777, PDict [(''i'', PInt 9)]]),
          (''c'', PDict [(''d'', PInt 999), (''e'', PInt 5), (''f'', PDict [(''g'', PInt 7)])]),
          (''h'', PInt 8)]"
  by code_simp+

lemma doc_update_dict_subkeys_meta:
  "merged False DEFAULT_METADATA_KEY [(''a'', PList [PInt 1, PInt 2, PInt 3])]
     [(''a'', PList [PInt 3, PInt 4, PInt 5]), (DEFAULT_METADATA_KEY, PDict [(''b'', PStr ''and'')])]
   = Inr [(''a'', PList [PInt 1, PInt 2, PInt 3, PInt 3, PInt 4, PInt 5])]"
  "merged False DEFAULT_METADATA_KEY [(''a'', PList [PInt 1, PInt 2, PInt 3])]
     [(''a'', PList [PInt 3, PInt 4, PInt 5]), (DEFAULT_METADATA_KEY, PDict [(''a'', PStr ''keep'')])]
   = Inr [(''a'', PList [PInt 1, PInt 2, PInt 3])]"
  "merged False DEFAULT_METADATA_KEY [(''a'', PList [PInt 1, PInt 2, PInt 3])]
     [(''a'', PList [PInt 3, PInt 4, PInt 5]), (DEFAULT_METADATA_KEY, PDict [(''a'', PStr ''replace'')])]
   = Inr [(''a'', PList [PInt 3, PInt 4, PInt 5])]"
  by code_simp+

lemma doc_replace_template_variables:
  "replace_template_variables some_repr
     [(''a'', PStr ''XtestX''), (''b'', PStr ''template ${a}'')] []
   = Inr [(''a'', PStr ''XtestX''), (''b'', PStr ''template XtestX'')]"
  "replace_template_variables some_repr
     [(''a'', PStr ''1''), (''b'', PStr ''2''), (''c'', PDict [(''d'', PStr ''${a}x${b}'')])] []
   = Inr [(''a'', PStr ''1''), (''b'', PStr ''2''), (''c'', PDict [(''d'', PStr ''1x2'')])]"
  by code_simp+

lemma doc_merge:
  "merge some_repr False DEFAULT_METADATA_KEY
     [[(''a'', PInt 1), (''b'', PList [PInt 2]), (''c'', PDict [(''d'', PStr ''a is ${a}'')])],
      [(''a'', PInt 5), (''b'', PList [PInt 999])]]
   = Inr [(''a'', PInt 5), (''b'', PList [PInt 2, PInt 999]), (''c'', PDict [(''d'', PStr ''a is 5'')])]"
  "merge some_repr True DEFAULT_METADATA_KEY [[(''a'', PInt 1)], [(''a'', PNone)]]
   = Inr [(''a'', PInt 1)]"
  by code_simp+

section \<open>The merge loop, key by key\<close>

text \<open>A step of the loop assigns to the key it visits and to no other.\<close>

lemma merge_loop_other_key:
  "merge_loop t mk meta items d u = Inr (r, u') \<Longrightarrow> k \<notin> fst ` set items \<Longrightarrow> map_of r k = map_of d k"
proof (induction items arbitrary: d u)
  case Nil
  then show ?case by simp
next
  case (Cons kv items)
  obtain k' v where kv: "kv = (k', v)" by (cases kv)
  with Cons.prems have ne: "k \<noteq> k'" and notin: "k \<notin> fst ` set items" by auto
  from Cons.prems(1) kv obtain d1 u1 where
    step: "merge_loop t mk meta items d1 u1 = Inr (r, u')" and d1: "map_of d1 k = map_of d k"
    using ne
    by (auto split: pyval.splits sum.splits if_splits prod.splits simp: map_of_dict_set)
  from Cons.IH[OF step notin] d1 show ?case by simp
qed


section \<open>Scalar values of the update\<close>



text \<open>The flag is an argument of the call and is not handed down: below a key of the
  update the recursive call runs with the default, and \<^verbatim>\<open>None\<close> overwrites there.\<close>

lemma transparent_not_handed_down:
  "update_dict_subkeys True DEFAULT_METADATA_KEY
     [(''c'', PDict [(''a'', PInt 1)])] [(''c'', PDict [(''a'', PNone)])]
   = Inr ([(''c'', PDict [(''a'', PNone)])], [(''c'', PDict [(''a'', PNone)])])"
  by code_simp

section \<open>One key of the update at a time\<close>

lemma merge_loop_Cons:
  "merge_loop t mk meta (kv # items) d u =
     (case merge_loop t mk meta [kv] d u of
        Inl e \<Rightarrow> Inl e
      | Inr (d1, u1) \<Rightarrow> merge_loop t mk meta items d1 u1)"
  by (cases kv) (auto split: pyval.splits sum.splits prod.splits scalar.splits)

text \<open>With distinct keys, the value the result has at a key of the update is the one its
  own step assigned, and that step saw the base value at that key.\<close>

lemma merge_loop_at:
  assumes "merge_loop t mk meta items d u = Inr (r, u')"
    and "distinct (map fst items)"
    and "(k, v) \<in> set items"
  shows "\<exists>d0 u0 d1 u1. map_of d0 k = map_of d k
           \<and> merge_loop t mk meta [(k, v)] d0 u0 = Inr (d1, u1)
           \<and> map_of r k = map_of d1 k"
  using assms
proof (induction items arbitrary: d u)
  case Nil
  then show ?case by simp
next
  case (Cons kv items)
  from Cons.prems(1) obtain d1 u1 where
    one: "merge_loop t mk meta [kv] d u = Inr (d1, u1)"
    and rest: "merge_loop t mk meta items d1 u1 = Inr (r, u')"
    by (subst (asm) merge_loop_Cons) (auto split: sum.splits)
  show ?case
  proof (cases "kv = (k, v)")
    case True
    with Cons.prems(2) have "k \<notin> fst ` set items" by auto
    from merge_loop_other_key[OF rest this] one True show ?thesis by blast
  next
    case False
    with Cons.prems(3) have mem: "(k, v) \<in> set items" by auto
    with Cons.prems(2) have "k \<notin> fst ` set [kv]" by (auto simp: image_iff)
    from merge_loop_other_key[OF one this] have same: "map_of d1 k = map_of d k" .
    from Cons.prems(2) have "distinct (map fst items)" by simp
    from Cons.IH[OF rest this mem] same show ?thesis by simp
  qed
qed

text \<open>The same for a whole call: the metadata are those of the two arguments, and the
  step at a key other than the metadata key starts from the base value there.\<close>

lemma update_dict_subkeys_at:
  assumes "update_dict_subkeys t mk d u = Inr (r, u')"
    and "distinct (dict_keys u)"
    and "map_of u k = Some v" and "k \<noteq> mk"
  shows "\<exists>dm um d0 u0 d1 u1.
           dict_get d mk (PDict []) = PDict dm \<and> dict_get u mk (PDict []) = PDict um
           \<and> map_of d0 k = map_of d k
           \<and> merge_loop t mk (dict_update dm um) [(k, v)] d0 u0 = Inr (d1, u1)
           \<and> map_of r k = map_of d1 k"
proof -
  from assms(1) obtain dm um where
    dm: "dict_get d mk (PDict []) = PDict dm" and um: "dict_get u mk (PDict []) = PDict um"
    and loop: "merge_loop t mk (dict_update dm um) (dict_del u mk) (dict_del d mk) (dict_del u mk)
                 = Inr (r, u')"
    by (auto simp: dict_pop_def split: sum.splits elim!: as_mapping.elims)
  have dist: "distinct (map fst (dict_del u mk))"
    using assms(2) by (simp add: dict_keys_def distinct_dict_del)
  have mem: "(k, v) \<in> set (dict_del u mk)"
    using assms(3,4) by (auto simp: dict_del_def dest: map_of_SomeD)
  from merge_loop_at[OF loop dist mem] assms(4) dm um show ?thesis
    by (simp add: map_of_dict_del)
qed

lemma map_of_dict_update:
  "distinct (map fst b) \<Longrightarrow>
   map_of (dict_update a b) k = (case map_of b k of Some v \<Rightarrow> Some v | None \<Rightarrow> map_of a k)"
  unfolding dict_update_def
proof (induction b arbitrary: a)
  case Nil
  then show ?case by simp
next
  case (Cons x b)
  from Cons.prems have "map_of b (fst x) = None"
    by (simp add: map_of_eq_None_iff)
  with Cons show ?case
    by (cases x) (auto simp: map_of_dict_set split: option.splits)
qed

lemma dict_get_dict_update:
  "distinct (map fst b) \<Longrightarrow>
   dict_get (dict_update a b) k dflt = dict_get b k (dict_get a k dflt)"
  by (simp add: dict_get_def map_of_dict_update split: option.splits)

section \<open>Sequence values of the update\<close>

text \<open>
  Claim C6. Let \<open>update_dict_subkeys\<close> return \<open>r\<close>, let \<open>dm\<close> and \<open>um\<close> be the metadata of
  the base \<open>d\<close> and of the update \<open>u\<close>, let \<open>u\<close> hold the list \<open>b\<close> at the key \<open>k\<close> and
  \<open>d\<close> the list \<open>a\<close> (or nothing, then \<open>a\<close> is empty). The strategy is the one named by
  \<open>um\<close> at \<open>k\<close>, else by \<open>dm\<close> at \<open>k\<close>, else \<^verbatim>\<open>concat\<close>, and \<open>r\<close> has at \<open>k\<close>:
  \<open>a\<close> followed by \<open>b\<close> for \<^verbatim>\<open>concat\<close>, \<open>a\<close> for \<^verbatim>\<open>keep\<close>, \<open>b\<close> for \<^verbatim>\<open>replace\<close>, the set of
  the elements common to both for \<^verbatim>\<open>and\<close>, the set of the elements of either for \<^verbatim>\<open>or\<close>.
\<close>

theorem combine_strategy:
  assumes ret: "update_dict_subkeys transparent mk d u = Inr (r, u')"
    and wf: "wf_dict u"
    and dm: "dict_get d mk (PDict []) = PDict dm"
    and um: "dict_get u mk (PDict []) = PDict um"
    and upd: "map_of u k = Some (PList b)"
    and base: "dict_get d k (PList []) = PList a"
  shows "\<exists>f. combine_lookup (dict_get um k (dict_get dm k (PStr ''concat''))) = Inr f
           \<and> map_of r k = Some (case f of
                 Concat \<Rightarrow> PList (a @ b)
               | Keep \<Rightarrow> PList a
               | Replace \<Rightarrow> PList b
               | And \<Rightarrow> PSet (list_elements a |\<inter>| list_elements b)
               | Or \<Rightarrow> PSet (list_elements a |\<union>| list_elements b))"
proof -
  have ne: "k \<noteq> mk"
  proof
    assume "k = mk"
    with upd have "dict_get u mk (PDict []) = PList b" by (simp add: dict_get_def)
    with um show False by simp
  qed
  from wf have dist: "distinct (dict_keys u)"
    by (simp add: wf_dict_def dict_keys_def)
  have "distinct (map fst um)"
  proof (cases "map_of u mk")
    case None
    with um show ?thesis by (simp add: dict_get_def)
  next
    case (Some x)
    with um have "(mk, PDict um) \<in> set u" by (auto simp: dict_get_def dest: map_of_SomeD)
    with wf show ?thesis by (auto simp: wf_dict_def list_all_iff)
  qed
  then have meta: "dict_get (dict_update dm um) k (PStr ''concat'')
                     = dict_get um k (dict_get dm k (PStr ''concat''))"
    by (rule dict_get_dict_update)
  from update_dict_subkeys_at[OF ret dist upd ne] dm um obtain d0 u0 d1 u1 where
    d0: "map_of d0 k = map_of d k"
    and one: "merge_loop transparent mk (dict_update dm um) [(k, PList b)] d0 u0 = Inr (d1, u1)"
    and r: "map_of r k = map_of d1 k"
    by auto
  from d0 base have base0: "dict_get d0 k (PList []) = PList a"
    by (simp add: dict_get_def)
  from one obtain f res where
    f: "combine_lookup (dict_get um k (dict_get dm k (PStr ''concat''))) = Inr f"
    and res: "combine f (PList a) (PList b) = Inr res"
    and d1: "d1 = dict_set d0 k res"
    by (auto simp: meta base0 split: sum.splits)
  from res have "res = (case f of
                 Concat \<Rightarrow> PList (a @ b)
               | Keep \<Rightarrow> PList a
               | Replace \<Rightarrow> PList b
               | And \<Rightarrow> PSet (list_elements a |\<inter>| list_elements b)
               | Or \<Rightarrow> PSet (list_elements a |\<union>| list_elements b))"
    by (cases f) (auto split: if_splits)
  with f r d1 show ?thesis
    by (simp add: map_of_dict_set)
qed

text \<open>The docstring's example of \<^verbatim>\<open>and\<close>: \<^verbatim>\<open>[1, 2, 3]\<close> and \<^verbatim>\<open>[3, 4, 5]\<close> give \<^verbatim>\<open>{3}\<close>.\<close>

theorem combine_strategy_witness:
  "update_dict_subkeys False DEFAULT_METADATA_KEY
     [(''a'', PList [PInt 1, PInt 2, PInt 3])]
     [(''a'', PList [PInt 3, PInt 4, PInt 5]),
      (DEFAULT_METADATA_KEY, PDict [(''a'', PStr ''and'')])]
   = Inr ([(''a'', PSet {|SInt 3|})], [(''a'', PList [PInt 3, PInt 4, PInt 5])])
   \<and> combine_lookup (dict_get [(''a'', PStr ''and'')] ''a'' (dict_get [] ''a'' (PStr ''concat'')))
       = Inr And
   \<and> list_elements [PInt 1, PInt 2, PInt 3] |\<inter>| list_elements [PInt 3, PInt 4, PInt 5]
       = {|SInt 3|}"
proof -
  let ?d = "[(''a'', PList [PInt 1, PInt 2, PInt 3])]"
  let ?u = "[(''a'', PList [PInt 3, PInt 4, PInt 5]),
             (DEFAULT_METADATA_KEY, PDict [(''a'', PStr ''and'')])]"
  have ret: "update_dict_subkeys False DEFAULT_METADATA_KEY ?d ?u
               = Inr ([(''a'', PSet {|SInt 3|})], [(''a'', PList [PInt 3, PInt 4, PInt 5])])"
    by code_simp
  have wf: "wf_dict ?u" by code_simp
  have dm: "dict_get ?d DEFAULT_METADATA_KEY (PDict []) = PDict []" by code_simp
  have um: "dict_get ?u DEFAULT_METADATA_KEY (PDict []) = PDict [(''a'', PStr ''and'')]"
    by code_simp
  have upd: "map_of ?u ''a'' = Some (PList [PInt 3, PInt 4, PInt 5])" by simp
  have base: "dict_get ?d ''a'' (PList []) = PList [PInt 1, PInt 2, PInt 3]" by code_simp
  have f: "combine_lookup (dict_get [(''a'', PStr ''and'')] ''a'' (dict_get [] ''a'' (PStr ''concat'')))
             = Inr And"
    by code_simp
  have "list_elements [PInt 1, PInt 2, PInt 3] |\<inter>| list_elements [PInt 3, PInt 4, PInt 5]
          = {|SInt 3|}"
    using combine_strategy[OF ret wf dm um upd base] by (simp add: f)
  with ret f show ?thesis by simp
qed

section \<open>Mapping values of the update\<close>

text \<open>
  Claim C5, as the code has it. Let the update \<open>u\<close> hold the mapping \<open>vm\<close> at a key \<open>k\<close>
  other than the metadata key. If the base \<open>d\<close> has no value at \<open>k\<close>, the result has there
  the merge of the empty mapping with \<open>vm\<close>; if \<open>d\<close> has the mapping \<open>dk\<close> there, the
  result has the merge of \<open>dk\<close> with \<open>vm\<close>; if \<open>d\<close> has anything else there, the call
  raises: \<^verbatim>\<open>d.get(k, {})\<close> is then not a dictionary, and the recursive call starts by
  calling its \<^verbatim>\<open>pop\<close> with two arguments.
\<close>

theorem mapping_update:
  assumes dist: "distinct (dict_keys u)"
    and upd: "map_of u k = Some (PDict vm)"
    and ne: "k \<noteq> mk"
  shows "(map_of d k = None \<longrightarrow> update_dict_subkeys transparent mk d u = Inr (r, u') \<longrightarrow>
            (\<exists>x vm'. update_dict_subkeys False mk [] vm = Inr (x, vm') \<and> map_of r k = Some (PDict x)))
       \<and> (map_of d k = Some (PDict dk) \<longrightarrow> update_dict_subkeys transparent mk d u = Inr (r, u') \<longrightarrow>
            (\<exists>x vm'. update_dict_subkeys False mk dk vm = Inr (x, vm') \<and> map_of r k = Some (PDict x)))
       \<and> (map_of d k = Some b \<longrightarrow> (\<forall>dk. b \<noteq> PDict dk) \<longrightarrow>
            isl (update_dict_subkeys transparent mk d u))"
proof -
  have step: "\<exists>meta d0 u0 d1 u1. map_of d0 k = map_of d k
                \<and> merge_loop transparent mk meta [(k, PDict vm)] d0 u0 = Inr (d1, u1)
                \<and> map_of r' k = map_of d1 k"
    if "update_dict_subkeys transparent mk d u = Inr (r', u'')" for r' u''
    using update_dict_subkeys_at[OF that dist upd ne] by blast
  have absent: "\<exists>x vm'. update_dict_subkeys False mk [] vm = Inr (x, vm') \<and> map_of r k = Some (PDict x)"
    if "map_of d k = None" and ret: "update_dict_subkeys transparent mk d u = Inr (r, u')"
  proof -
    from step[OF ret] obtain meta d0 u0 d1 u1 where
      d0: "map_of d0 k = map_of d k"
      and one: "merge_loop transparent mk meta [(k, PDict vm)] d0 u0 = Inr (d1, u1)"
      and r: "map_of r k = map_of d1 k"
      by blast
    from d0 that(1) have "dict_get d0 k (PDict []) = PDict []" by (simp add: dict_get_def)
    with one r show ?thesis
      by (auto split: sum.splits simp: map_of_dict_set)
  qed
  have present: "\<exists>x vm'. update_dict_subkeys False mk dk vm = Inr (x, vm') \<and> map_of r k = Some (PDict x)"
    if "map_of d k = Some (PDict dk)" and ret: "update_dict_subkeys transparent mk d u = Inr (r, u')"
  proof -
    from step[OF ret] obtain meta d0 u0 d1 u1 where
      d0: "map_of d0 k = map_of d k"
      and one: "merge_loop transparent mk meta [(k, PDict vm)] d0 u0 = Inr (d1, u1)"
      and r: "map_of r k = map_of d1 k"
      by blast
    from d0 that(1) have "dict_get d0 k (PDict []) = PDict dk" by (simp add: dict_get_def)
    with one r show ?thesis
      by (auto split: sum.splits simp: map_of_dict_set)
  qed
  have other: "isl (update_dict_subkeys transparent mk d u)"
    if b: "map_of d k = Some b" and nd: "\<forall>dk. b \<noteq> PDict dk"
  proof (cases "update_dict_subkeys transparent mk d u")
    case (Inl e)
    then show ?thesis by simp
  next
    case (Inr p)
    obtain r' u'' where "p = (r', u'')" by (cases p)
    with Inr step obtain meta d0 u0 d1 u1 where
      d0: "map_of d0 k = map_of d k"
      and one: "merge_loop transparent mk meta [(k, PDict vm)] d0 u0 = Inr (d1, u1)"
      by blast
    from d0 b have "dict_get d0 k (PDict []) = b" by (simp add: dict_get_def)
    with one nd have False
      by (cases b) (auto split: sum.splits)
    then show ?thesis ..
  qed
  from absent present other show ?thesis by blast
qed

text \<open>A mapping put over a number, over nothing and over a mapping.\<close>

theorem mapping_update_witness:
  "isl (update_dict_subkeys False DEFAULT_METADATA_KEY
          [(''a'', PInt 1)] [(''a'', PDict [(''b'', PInt 2)])])
   \<and> update_dict_subkeys False DEFAULT_METADATA_KEY [] [(''a'', PDict [(''b'', PInt 2)])]
       = Inr ([(''a'', PDict [(''b'', PInt 2)])], [(''a'', PDict [(''b'', PInt 2)])])
   \<and> update_dict_subkeys False DEFAULT_METADATA_KEY
       [(''a'', PDict [(''c'', PInt 3)])] [(''a'', PDict [(''b'', PInt 2)])]
       = Inr ([(''a'', PDict [(''c'', PInt 3), (''b'', PInt 2)])], [(''a'', PDict [(''b'', PInt 2)])])"
proof -
  let ?u = "[(''a'', PDict [(''b'', PInt 2)])]"
  have dist: "distinct (dict_keys ?u)" by (simp add: dict_keys_def)
  have upd: "map_of ?u ''a'' = Some (PDict [(''b'', PInt 2)])" by simp
  have ne: "''a'' \<noteq> DEFAULT_METADATA_KEY" by (simp add: DEFAULT_METADATA_KEY_def)
  have b: "map_of [(''a'', PInt 1)] ''a'' = Some (PInt 1)" by simp
  have "isl (update_dict_subkeys False DEFAULT_METADATA_KEY [(''a'', PInt 1)] ?u)"
    using mapping_update[OF dist upd ne, of "[(''a'', PInt 1)]" False "[]" "[]" "[]" "PInt 1"] b
    by simp
  moreover have absent: "update_dict_subkeys False DEFAULT_METADATA_KEY [] ?u = Inr (?u, ?u)"
    by code_simp
  moreover have present:
    "update_dict_subkeys False DEFAULT_METADATA_KEY [(''a'', PDict [(''c'', PInt 3)])] ?u
       = Inr ([(''a'', PDict [(''c'', PInt 3), (''b'', PInt 2)])], ?u)"
    by code_simp
  moreover have "\<exists>x vm'. update_dict_subkeys False DEFAULT_METADATA_KEY [] [(''b'', PInt 2)] = Inr (x, vm')
                   \<and> map_of ?u ''a'' = Some (PDict x)"
    using mapping_update[OF dist upd ne, of "[]" False ?u ?u] absent
    by (simp del: update_dict_subkeys.simps)
  moreover have "\<exists>x vm'. update_dict_subkeys False DEFAULT_METADATA_KEY [(''c'', PInt 3)] [(''b'', PInt 2)]
                     = Inr (x, vm')
                   \<and> map_of [(''a'', PDict [(''c'', PInt 3), (''b'', PInt 2)])] ''a'' = Some (PDict x)"
    using mapping_update[OF dist upd ne, of "[(''a'', PDict [(''c'', PInt 3)])]" False
        "[(''a'', PDict [(''c'', PInt 3), (''b'', PInt 2)])]" ?u "[(''c'', PInt 3)]"] present
    by (simp del: update_dict_subkeys.simps)
  ultimately show ?thesis by simp
qed

text \<open>Claim C5 as it is written fails: over the number \<^verbatim>\<open>1\<close> the mapping is not merged
  with an empty mapping, the call raises \<^verbatim>\<open>AttributeError\<close>.\<close>

theorem mapping_over_scalar_counterexample:
  "update_dict_subkeys False DEFAULT_METADATA_KEY
     [(''a'', PInt 1)] [(''a'', PDict [(''b'', PInt 2)])] = Inl AttributeError"
  by code_simp

section \<open>Well-formed dictionaries\<close>

lemma wf_dict_member:
  assumes "wf_dict u" and "(k, PDict vm) \<in> set u"
  shows "wf_dict vm"
proof -
  from assms(1) have "\<forall>kv\<in>set u. wf_val (snd kv)"
    by (simp add: wf_dict_def list_all_iff)
  with assms(2) have "wf_val (snd (k, PDict vm))" by blast
  then show ?thesis by (simp add: wf_dict_def)
qed

lemma wf_dict_map_of: "wf_dict u \<Longrightarrow> (k, v) \<in> set u \<Longrightarrow> map_of u k = Some v"
  by (simp add: wf_dict_def)

lemma update_dict_subkeys_no_meta:
  assumes "update_dict_subkeys t mk d u = Inr (r, u')"
  shows "\<not> dict_has r mk"
proof -
  from assms obtain meta where
    loop: "merge_loop t mk meta (dict_del u mk) (dict_del d mk) (dict_del u mk) = Inr (r, u')"
    by (auto simp: dict_pop_def split: sum.splits)
  have "mk \<notin> fst ` set (dict_del u mk)"
    by (auto simp: dict_del_def)
  from merge_loop_other_key[OF loop this] show ?thesis
    by (simp add: dict_has_map_of map_of_dict_del)
qed

section \<open>Merging into an empty mapping\<close>

lemma strip_meta_unfold: "strip_meta mk b = map (strip_entry mk) (dict_del b mk)"
  by (subst strip_meta.simps) (simp add: strip_entry_def[abs_def])

lemma fst_strip_entry [simp]: "fst (strip_entry mk kv) = fst kv"
  by (simp add: strip_entry_def)

lemma dict_set_fresh: "k \<notin> set (map fst d) \<Longrightarrow> dict_set d k v = d @ [(k, v)]"
  by (induction d) auto

lemma dict_set_mid:
  "k \<notin> set (map fst pre) \<Longrightarrow> dict_set (pre @ (k, v) # rest) k v' = pre @ (k, v') # rest"
  by (induction pre) auto

lemma dict_get_fresh: "k \<notin> set (map fst d) \<Longrightarrow> dict_get d k dflt = dflt"
  by (simp add: dict_get_def map_of_eq_None_iff[THEN iffD2])

text \<open>The loop started on an empty base, seen after the items \<open>pre\<close>: the base is then
  these items, stripped, and so is the visited part of the update.\<close>

lemma merge_loop_into_empty:
  assumes "distinct (map fst (pre @ items))"
    and "\<forall>kv\<in>set items.
           (case snd kv of
              PDict vm \<Rightarrow>
                update_dict_subkeys False mk [] vm = Inr (strip_meta mk vm, strip_meta mk vm)
            | PList xs \<Rightarrow>
                combine_lookup (dict_get meta (fst kv) (PStr ''concat'')) \<in> {Inr Concat, Inr Replace}
            | PSet xs \<Rightarrow> combine_lookup (dict_get meta (fst kv) (PStr ''concat'')) = Inr Replace
            | Scalar s \<Rightarrow> True)"
  shows "merge_loop t mk meta items (map (strip_entry mk) pre) (map (strip_entry mk) pre @ items)
           = Inr (map (strip_entry mk) (pre @ items), map (strip_entry mk) (pre @ items))"
  using assms
proof (induction items arbitrary: pre)
  case Nil
  then show ?case by simp
next
  case (Cons kv items)
  obtain k v where kv: "kv = (k, v)" by (cases kv)
  let ?F = "strip_entry mk"
  from Cons.prems(1) kv have fresh: "k \<notin> set (map fst (map ?F pre))"
    by (auto simp: image_iff)
  have dist': "distinct (map fst ((pre @ [kv]) @ items))"
    using Cons.prems(1) by simp
  have good': "\<forall>kv\<in>set items.
           (case snd kv of
              PDict vm \<Rightarrow>
                update_dict_subkeys False mk [] vm = Inr (strip_meta mk vm, strip_meta mk vm)
            | PList xs \<Rightarrow>
                combine_lookup (dict_get meta (fst kv) (PStr ''concat'')) \<in> {Inr Concat, Inr Replace}
            | PSet xs \<Rightarrow> combine_lookup (dict_get meta (fst kv) (PStr ''concat'')) = Inr Replace
            | Scalar s \<Rightarrow> True)"
    using Cons.prems(2) by simp
  note IH = Cons.IH[OF dist' good']
  have absent: "\<not> dict_has (map ?F pre) k"
    using fresh by (simp add: dict_has_def dict_keys_def)
  have step: "merge_loop t mk meta (kv # items) (map ?F pre) (map ?F pre @ kv # items)
                = merge_loop t mk meta items (map ?F (pre @ [kv])) (map ?F (pre @ [kv]) @ items)"
  proof (cases v)
    case (Scalar s)
    then have "?F kv = kv" by (simp add: strip_entry_def kv)
    with Scalar kv absent fresh show ?thesis
      by (simp add: dict_set_fresh)
  next
    case (PList xs)
    then have F: "?F kv = kv" by (simp add: strip_entry_def kv)
    from Cons.prems(2) kv PList
    have "combine_lookup (dict_get meta k (PStr ''concat'')) \<in> {Inr Concat, Inr Replace}"
      by simp
    with PList kv fresh F show ?thesis
      by (auto simp: dict_set_fresh dict_get_fresh)
  next
    case (PSet xs)
    then have F: "?F kv = kv" by (simp add: strip_entry_def kv)
    from Cons.prems(2) kv PSet
    have "combine_lookup (dict_get meta k (PStr ''concat'')) = Inr Replace"
      by simp
    with PSet kv fresh F show ?thesis
      by (auto simp: dict_set_fresh dict_get_fresh)
  next
    case (PDict vm)
    then have F: "?F kv = (k, PDict (strip_meta mk vm))" by (simp add: strip_entry_def kv)
    from Cons.prems(2) kv PDict
    have "update_dict_subkeys False mk [] vm = Inr (strip_meta mk vm, strip_meta mk vm)"
      by simp
    with PDict kv fresh F show ?thesis
      by (simp add: dict_set_fresh dict_get_fresh dict_set_mid del: update_dict_subkeys.simps)
  qed
  with IH show ?case by simp
qed

lemma keeps_update_member:
  assumes "keeps_update mk b" and "(k, PDict vm) \<in> set b" and "k \<noteq> mk"
  shows "keeps_update mk vm"
proof -
  from assms(1) obtain m where
    "list_all (\<lambda>kv. fst kv = mk \<or>
                      (case snd kv of
                         PDict vm \<Rightarrow> keeps_update mk vm
                       | PList xs \<Rightarrow>
                           combine_lookup (dict_get m (fst kv) (PStr ''concat''))
                             \<in> {Inr Concat, Inr Replace}
                       | PSet xs \<Rightarrow>
                           combine_lookup (dict_get m (fst kv) (PStr ''concat'')) = Inr Replace
                       | Scalar s \<Rightarrow> True)) b"
    by (subst (asm) keeps_update.simps) (auto split: pyval.splits)
  with assms(2,3) show ?thesis
    by (auto simp: list_all_iff)
qed

lemma merge_into_empty:
  "wf_dict b \<Longrightarrow> keeps_update mk b \<Longrightarrow>
   update_dict_subkeys t mk [] b = Inr (strip_meta mk b, strip_meta mk b)"
proof (induction b arbitrary: t
        rule: measure_induct_rule[where f = "size_list (size_prod (\<lambda>_. 0) size)"])
  case (less b)
  from less.prems(2) obtain m where
    m: "dict_get b mk (PDict []) = PDict m"
    and all: "list_all (\<lambda>kv. fst kv = mk \<or>
                      (case snd kv of
                         PDict vm \<Rightarrow> keeps_update mk vm
                       | PList xs \<Rightarrow>
                           combine_lookup (dict_get m (fst kv) (PStr ''concat''))
                             \<in> {Inr Concat, Inr Replace}
                       | PSet xs \<Rightarrow>
                           combine_lookup (dict_get m (fst kv) (PStr ''concat'')) = Inr Replace
                       | Scalar s \<Rightarrow> True)) b"
    by (subst (asm) keeps_update.simps) (auto split: pyval.splits)
  have "distinct (map fst m)"
  proof (cases "map_of b mk")
    case None
    with m show ?thesis by (simp add: dict_get_def)
  next
    case (Some x)
    with m have "(mk, PDict m) \<in> set b" by (auto simp: dict_get_def dest: map_of_SomeD)
    with less.prems(1) show ?thesis by (auto simp: wf_dict_def list_all_iff)
  qed
  then have meta: "dict_get (dict_update [] m) k dflt = dict_get m k dflt" for k dflt
    by (simp add: dict_get_dict_update) (simp add: dict_get_def)
  have dist: "distinct (map fst ([] @ dict_del b mk))"
    using less.prems(1) by (simp add: wf_dict_def distinct_dict_del)
  have good: "\<forall>kv\<in>set (dict_del b mk).
           (case snd kv of
              PDict vm \<Rightarrow>
                update_dict_subkeys False mk [] vm = Inr (strip_meta mk vm, strip_meta mk vm)
            | PList xs \<Rightarrow>
                combine_lookup (dict_get (dict_update [] m) (fst kv) (PStr ''concat''))
                  \<in> {Inr Concat, Inr Replace}
            | PSet xs \<Rightarrow>
                combine_lookup (dict_get (dict_update [] m) (fst kv) (PStr ''concat'')) = Inr Replace
            | Scalar s \<Rightarrow> True)"
  proof
    fix kv assume "kv \<in> set (dict_del b mk)"
    then have mem: "kv \<in> set b" and ne: "fst kv \<noteq> mk"
      by (simp_all add: dict_del_def)
    show "case snd kv of
              PDict vm \<Rightarrow>
                update_dict_subkeys False mk [] vm = Inr (strip_meta mk vm, strip_meta mk vm)
            | PList xs \<Rightarrow>
                combine_lookup (dict_get (dict_update [] m) (fst kv) (PStr ''concat''))
                  \<in> {Inr Concat, Inr Replace}
            | PSet xs \<Rightarrow>
                combine_lookup (dict_get (dict_update [] m) (fst kv) (PStr ''concat'')) = Inr Replace
            | Scalar s \<Rightarrow> True"
    proof (cases "snd kv")
      case (PDict vm)
      with mem have in_b: "(fst kv, PDict vm) \<in> set b" by (metis prod.collapse)
      from less.IH[OF size_dict_member[OF in_b] wf_dict_member[OF less.prems(1) in_b]
          keeps_update_member[OF less.prems(2) in_b ne]]
      show ?thesis using PDict by simp
    next
      case (PList xs)
      with all mem ne show ?thesis by (auto simp: list_all_iff meta)
    next
      case (PSet xs)
      with all mem ne show ?thesis by (auto simp: list_all_iff meta)
    qed simp
  qed
  from merge_loop_into_empty[OF dist good, of t]
  show ?case
    by (simp add: dict_pop_def dict_get_def dict_del_def[of "[]"] m[unfolded dict_get_def]
        strip_meta_unfold[of mk b] split: option.splits)
qed

lemma merge_with_empty:
  "dict_get a mk (PDict []) = PDict m \<Longrightarrow> update_dict_subkeys t mk a [] = Inr (dict_del a mk, [])"
  by (simp add: dict_pop_def dict_get_def dict_del_def[of "[]"])

text \<open>
  Claim C2, as the code has it. Merging the empty mapping into \<open>a\<close> returns \<open>a\<close> without
  its own metadata entry (the metadata below its keys stay), when that entry, if there
  is one, is a mapping. Merging \<open>b\<close> into the empty mapping returns \<open>b\<close> stripped of its
  metadata, when the metadata select \<^verbatim>\<open>concat\<close> or \<^verbatim>\<open>replace\<close> only.
\<close>

theorem merge_identities:
  "(dict_get a mk (PDict []) = PDict m \<longrightarrow> merged t mk a [] = Inr (dict_del a mk))
   \<and> (wf_dict b \<and> keeps_update mk b \<longrightarrow> merged t mk [] b = Inr (strip_meta mk b))"
proof (intro conjI impI)
  assume "dict_get a mk (PDict []) = PDict m"
  then have "update_dict_subkeys t mk a [] = Inr (dict_del a mk, [])"
    by (rule merge_with_empty)
  then show "merged t mk a [] = Inr (dict_del a mk)"
    by (simp add: merged_def del: update_dict_subkeys.simps)
next
  assume "wf_dict b \<and> keeps_update mk b"
  then have "update_dict_subkeys t mk [] b = Inr (strip_meta mk b, strip_meta mk b)"
    by (simp add: merge_into_empty del: update_dict_subkeys.simps)
  then show "merged t mk [] b = Inr (strip_meta mk b)"
    by (simp add: merged_def del: update_dict_subkeys.simps)
qed

theorem merge_identities_witness:
  "merged False DEFAULT_METADATA_KEY
     [(''a'', PInt 1), (DEFAULT_METADATA_KEY, PDict [(''a'', PStr ''and'')])] []
     = Inr [(''a'', PInt 1)]
   \<and> merged False DEFAULT_METADATA_KEY []
       [(''a'', PList [PInt 1, PInt 2]),
        (''c'', PDict [(''d'', PStr ''x''), (DEFAULT_METADATA_KEY, PDict [])]),
        (DEFAULT_METADATA_KEY, PDict [(''a'', PStr ''replace'')])]
     = Inr [(''a'', PList [PInt 1, PInt 2]), (''c'', PDict [(''d'', PStr ''x'')])]"
proof -
  let ?a = "[(''a'', PInt 1), (DEFAULT_METADATA_KEY, PDict [(''a'', PStr ''and'')])]"
  let ?b = "[(''a'', PList [PInt 1, PInt 2]),
             (''c'', PDict [(''d'', PStr ''x''), (DEFAULT_METADATA_KEY, PDict [])]),
             (DEFAULT_METADATA_KEY, PDict [(''a'', PStr ''replace'')])]"
  have m: "dict_get ?a DEFAULT_METADATA_KEY (PDict []) = PDict [(''a'', PStr ''and'')]"
    by code_simp
  have wf: "wf_dict ?b" by code_simp
  have keeps: "keeps_update DEFAULT_METADATA_KEY ?b" by code_simp
  have del: "dict_del ?a DEFAULT_METADATA_KEY = [(''a'', PInt 1)]" by code_simp
  have strip: "strip_meta DEFAULT_METADATA_KEY ?b
                 = [(''a'', PList [PInt 1, PInt 2]), (''c'', PDict [(''d'', PStr ''x'')])]"
    by code_simp
  from merge_identities[of ?a DEFAULT_METADATA_KEY "[(''a'', PStr ''and'')]" False ?b] m wf keeps
  show ?thesis
    by (simp only: del strip)
qed

text \<open>Claim C2 as it is written fails for \<^verbatim>\<open>keep\<close>, \<^verbatim>\<open>and\<close> and \<^verbatim>\<open>or\<close>: merged into the empty
  mapping, the list \<^verbatim>\<open>[1, 2]\<close> of the update comes out as the empty list, as the empty
  set and as the set \<^verbatim>\<open>{1, 2}\<close>, while the update stripped of its metadata has the list.
  And a base merged with the empty mapping keeps the metadata below its keys.\<close>

theorem merge_into_empty_counterexample:
  "merged False DEFAULT_METADATA_KEY []
     [(''a'', PList [PInt 1, PInt 2]), (DEFAULT_METADATA_KEY, PDict [(''a'', PStr ''keep'')])]
     = Inr [(''a'', PList [])]
   \<and> merged False DEFAULT_METADATA_KEY []
       [(''a'', PList [PInt 1, PInt 2]), (DEFAULT_METADATA_KEY, PDict [(''a'', PStr ''and'')])]
     = Inr [(''a'', PSet {||})]
   \<and> merged False DEFAULT_METADATA_KEY []
       [(''a'', PList [PInt 1, PInt 2]), (DEFAULT_METADATA_KEY, PDict [(''a'', PStr ''or'')])]
     = Inr [(''a'', PSet {|SInt 1, SInt 2|})]
   \<and> strip_meta DEFAULT_METADATA_KEY
       [(''a'', PList [PInt 1, PInt 2]), (DEFAULT_METADATA_KEY, PDict [(''a'', PStr ''keep'')])]
     = [(''a'', PList [PInt 1, PInt 2])]
   \<and> merged False DEFAULT_METADATA_KEY
       [(''c'', PDict [(''l'', PList []), (DEFAULT_METADATA_KEY, PDict [(''l'', PStr ''keep'')])])] []
     = Inr [(''c'', PDict [(''l'', PList []), (DEFAULT_METADATA_KEY, PDict [(''l'', PStr ''keep'')])])]
   \<and> strip_meta DEFAULT_METADATA_KEY
       [(''c'', PDict [(''l'', PList []), (DEFAULT_METADATA_KEY, PDict [(''l'', PStr ''keep'')])])]
     = [(''c'', PDict [(''l'', PList [])])]"
  by code_simp

section \<open>The metadata key in the result\<close>

text \<open>
  Claim C3, as the code has it. After a merge the result has no metadata entry, and
  neither has any mapping of the result below a key at which the update holds a mapping,
  and so on downwards. (Mappings inside a sequence, and mappings of the base that the
  update does not reach, are not visited.)
\<close>

theorem metadata_consumed:
  "update_dict_subkeys t mk d u = Inr (r, u') \<Longrightarrow> wf_dict u \<Longrightarrow> meta_consumed mk u r"
proof (induction u arbitrary: t d r u'
        rule: measure_induct_rule[where f = "size_list (size_prod (\<lambda>_. 0) size)"])
  case (less u)
  have dist: "distinct (dict_keys u)"
    using less.prems(2) by (simp add: wf_dict_def dict_keys_def)
  have below: "\<exists>rk. map_of r k = Some (PDict rk) \<and> meta_consumed mk vm rk"
    if mem: "(k, PDict vm) \<in> set u" and ne: "k \<noteq> mk" for k vm
  proof -
    have upd: "map_of u k = Some (PDict vm)"
      using less.prems(2) mem by (rule wf_dict_map_of)
    from update_dict_subkeys_at[OF less.prems(1) dist upd ne] obtain meta d0 u0 d1 u1 where
      one: "merge_loop t mk meta [(k, PDict vm)] d0 u0 = Inr (d1, u1)"
      and r: "map_of r k = map_of d1 k"
      by blast
    from one obtain dk x vm' where
      inner: "update_dict_subkeys False mk dk vm = Inr (x, vm')"
      and d1: "d1 = dict_set d0 k (PDict x)"
      by (auto split: pyval.splits sum.splits)
    from less.IH[OF size_dict_member[OF mem] inner wf_dict_member[OF less.prems(2) mem]]
    have "meta_consumed mk vm x" .
    with r d1 show ?thesis by (simp add: map_of_dict_set)
  qed
  have "list_all (\<lambda>kv. fst kv = mk \<or>
                  (case snd kv of
                     PDict vm \<Rightarrow>
                       (case map_of r (fst kv) of
                          Some (PDict rk) \<Rightarrow> meta_consumed mk vm rk
                        | _ \<Rightarrow> False)
                   | _ \<Rightarrow> True)) u"
    unfolding list_all_iff
  proof
    fix kv assume kv: "kv \<in> set u"
    show "fst kv = mk \<or> (case snd kv of
                     PDict vm \<Rightarrow>
                       (case map_of r (fst kv) of
                          Some (PDict rk) \<Rightarrow> meta_consumed mk vm rk
                        | _ \<Rightarrow> False)
                   | _ \<Rightarrow> True)"
    proof (cases "snd kv")
      case (PDict vm)
      show ?thesis
      proof (cases "fst kv = mk")
        case False
        from kv PDict have "(fst kv, PDict vm) \<in> set u" by (metis prod.collapse)
        from below[OF this False] PDict show ?thesis by auto
      qed simp
    qed simp_all
  qed
  with update_dict_subkeys_no_meta[OF less.prems(1)] show ?case
    by (subst meta_consumed.simps) simp
qed

theorem metadata_consumed_witness:
  "update_dict_subkeys False DEFAULT_METADATA_KEY
     [(''c'', PDict [(''l'', PList [PInt 1]), (DEFAULT_METADATA_KEY, PDict [(''l'', PStr ''keep'')])]),
      (DEFAULT_METADATA_KEY, PDict [])]
     [(''c'', PDict [(''l'', PList [PInt 2]), (DEFAULT_METADATA_KEY, PDict [(''l'', PStr ''replace'')])])]
   = Inr ([(''c'', PDict [(''l'', PList [PInt 2])])], [(''c'', PDict [(''l'', PList [PInt 2])])])
   \<and> meta_consumed DEFAULT_METADATA_KEY
       [(''c'', PDict [(''l'', PList [PInt 2]), (DEFAULT_METADATA_KEY, PDict [(''l'', PStr ''replace'')])])]
       [(''c'', PDict [(''l'', PList [PInt 2])])]"
proof -
  let ?d = "[(''c'', PDict [(''l'', PList [PInt 1]), (DEFAULT_METADATA_KEY, PDict [(''l'', PStr ''keep'')])]),
             (DEFAULT_METADATA_KEY, PDict [])]"
  let ?u = "[(''c'', PDict [(''l'', PList [PInt 2]), (DEFAULT_METADATA_KEY, PDict [(''l'', PStr ''replace'')])])]"
  have ret: "update_dict_subkeys False DEFAULT_METADATA_KEY ?d ?u
               = Inr ([(''c'', PDict [(''l'', PList [PInt 2])])], [(''c'', PDict [(''l'', PList [PInt 2])])])"
    by code_simp
  have wf: "wf_dict ?u" by code_simp
  from metadata_consumed[OF ret wf] ret show ?thesis by simp
qed

text \<open>Claim C3 as it is written fails: a mapping inside a sequence of the update comes
  out with its metadata entry, and so does a mapping of the base below a key that the
  update does not have.\<close>

theorem metadata_left_counterexample:
  "update_dict_subkeys False DEFAULT_METADATA_KEY []
     [(''a'', PList [PDict [(''b'', PList [PInt 1]), (DEFAULT_METADATA_KEY, PDict [(''b'', PStr ''keep'')])]])]
   = Inr ([(''a'', PList [PDict [(''b'', PList [PInt 1]), (DEFAULT_METADATA_KEY, PDict [(''b'', PStr ''keep'')])]])],
          [(''a'', PList [PDict [(''b'', PList [PInt 1]), (DEFAULT_METADATA_KEY, PDict [(''b'', PStr ''keep'')])]])])
   \<and> \<not> meta_free DEFAULT_METADATA_KEY
         (PDict [(''a'', PList [PDict [(''b'', PList [PInt 1]), (DEFAULT_METADATA_KEY, PDict [(''b'', PStr ''keep'')])]])])
   \<and> update_dict_subkeys False DEFAULT_METADATA_KEY
       [(''a'', PDict [(DEFAULT_METADATA_KEY, PDict [(''b'', PStr ''keep'')])])] [(''x'', PInt 1)]
   = Inr ([(''a'', PDict [(DEFAULT_METADATA_KEY, PDict [(''b'', PStr ''keep'')])]), (''x'', PInt 1)],
          [(''x'', PInt 1)])
   \<and> \<not> meta_free DEFAULT_METADATA_KEY
         (PDict [(''a'', PDict [(DEFAULT_METADATA_KEY, PDict [(''b'', PStr ''keep'')])]), (''x'', PInt 1)])"
  by code_simp

section \<open>Merging and resolving without an exception\<close>








section \<open>The template loop, key by key\<close>

lemma template_loop_Cons:
  "template_loop repr (kv # items) data ancestors =
     (case template_loop repr [kv] data ancestors of
        Inl e \<Rightarrow> Inl e
      | Inr data1 \<Rightarrow> template_loop repr items data1 ancestors)"
  by (cases kv) (auto split: pyval.splits sum.splits scalar.splits)

lemma template_loop_one_other_key:
  "template_loop repr [kv] data ancestors = Inr r \<Longrightarrow> k \<noteq> fst kv \<Longrightarrow> map_of r k = map_of data k"
  by (cases kv) (auto split: pyval.splits sum.splits scalar.splits simp: map_of_dict_set)

lemma template_loop_other_key:
  "template_loop repr items data ancestors = Inr r \<Longrightarrow> k \<notin> fst ` set items \<Longrightarrow>
   map_of r k = map_of data k"
proof (induction items arbitrary: data)
  case Nil
  then show ?case by simp
next
  case (Cons kv items)
  from Cons.prems(1) obtain data1 where
    one: "template_loop repr [kv] data ancestors = Inr data1"
    and rest: "template_loop repr items data1 ancestors = Inr r"
    by (subst (asm) template_loop_Cons) (auto split: sum.splits)
  from Cons.prems(2) have "k \<noteq> fst kv" and "k \<notin> fst ` set items" by auto
  with template_loop_one_other_key[OF one] Cons.IH[OF rest] show ?case by simp
qed

text \<open>With distinct keys, the value the result has at a key is the one the step at that
  key assigned, in the dictionary as it was then.\<close>

lemma template_loop_at:
  assumes "template_loop repr items data ancestors = Inr r"
    and "distinct (map fst items)"
    and "(k, v) \<in> set items"
  shows "\<exists>data0 data1. template_loop repr [(k, v)] data0 ancestors = Inr data1
           \<and> map_of r k = map_of data1 k"
  using assms
proof (induction items arbitrary: data)
  case Nil
  then show ?case by simp
next
  case (Cons kv items)
  from Cons.prems(1) obtain data1 where
    one: "template_loop repr [kv] data ancestors = Inr data1"
    and rest: "template_loop repr items data1 ancestors = Inr r"
    by (subst (asm) template_loop_Cons) (auto split: sum.splits)
  show ?case
  proof (cases "kv = (k, v)")
    case True
    with Cons.prems(2) have "k \<notin> fst ` set items" by auto
    from template_loop_other_key[OF rest this] one True show ?thesis by blast
  next
    case False
    with Cons.prems(3) have mem: "(k, v) \<in> set items" by auto
    from Cons.prems(2) have "distinct (map fst items)" by simp
    from Cons.IH[OF rest this mem] show ?thesis .
  qed
qed

section \<open>Sequences under the template resolver\<close>

lemma replace_template_not_str: "\<forall>s. x \<noteq> PStr s \<Longrightarrow> replace_template repr data ancestors x = x"
  by (cases "(repr, data, ancestors, x)" rule: replace_template.cases) auto

text \<open>
  Claim C10. Let \<open>replace_template_variables\<close> return \<open>r\<close> for a mapping that holds the
  list \<open>xs\<close> at the key \<open>k\<close>. Then \<open>r\<close> holds at \<open>k\<close> a list of the same length, with the
  same element wherever the element of \<open>xs\<close> is not a string: numbers, mappings, lists
  and sets inside a list stay as they are, with the tokens in them.
\<close>

theorem sequence_elements:
  assumes "replace_template_variables repr data ancestors = Inr r"
    and "distinct (dict_keys data)"
    and "map_of data k = Some (PList xs)"
  shows "\<exists>ys. map_of r k = Some (PList ys) \<and> length ys = length xs
           \<and> (\<forall>i<length xs. (\<forall>s. xs ! i \<noteq> PStr s) \<longrightarrow> ys ! i = xs ! i)"
proof -
  from assms(1) have loop: "template_loop repr data data ancestors = Inr r" by simp
  from assms(2) have dist: "distinct (map fst data)" by (simp add: dict_keys_def)
  from assms(3) have mem: "(k, PList xs) \<in> set data" by (rule map_of_SomeD)
  from template_loop_at[OF loop dist mem] obtain data0 data1 where
    one: "template_loop repr [(k, PList xs)] data0 ancestors = Inr data1"
    and r: "map_of r k = map_of data1 k"
    by blast
  from one have "data1 = dict_set data0 k (PList (map (replace_template repr data0 ancestors) xs))"
    by simp
  with r have "map_of r k = Some (PList (map (replace_template repr data0 ancestors) xs))"
    by (simp add: map_of_dict_set)
  then show ?thesis
    by (simp add: replace_template_not_str)
qed

text \<open>A list with a string, a mapping and a list, each holding the token \<^verbatim>\<open>${a}\<close>: only
  the string is rewritten.\<close>

theorem sequence_elements_witness:
  "replace_template_variables some_repr
     [(''a'', PStr ''X''),
      (''l'', PList [PStr ''${a}'', PDict [(''m'', PStr ''${a}'')], PList [PStr ''${a}'']])] []
   = Inr [(''a'', PStr ''X''),
          (''l'', PList [PStr ''X'', PDict [(''m'', PStr ''${a}'')], PList [PStr ''${a}'']])]"
proof -
  let ?data = "[(''a'', PStr ''X''),
      (''l'', PList [PStr ''${a}'', PDict [(''m'', PStr ''${a}'')], PList [PStr ''${a}'']])]"
  let ?r = "[(''a'', PStr ''X''),
          (''l'', PList [PStr ''X'', PDict [(''m'', PStr ''${a}'')], PList [PStr ''${a}'']])]"
  have ret: "replace_template_variables some_repr ?data [] = Inr ?r" by code_simp
  have dist: "distinct (dict_keys ?data)" by code_simp
  have val: "map_of ?data ''l''
               = Some (PList [PStr ''${a}'', PDict [(''m'', PStr ''${a}'')], PList [PStr ''${a}'']])"
    by simp
  from sequence_elements[OF ret dist val] ret show ?thesis by blast
qed

section \<open>Finding and replacing tokens\<close>
















section \<open>What a token is replaced by\<close>



section \<open>Tokens in the text put in\<close>




section \<open>The overlay on a new object\<close>

lemma merge_all_append:
  "merge_all data (xs @ ys) =
     (case merge_all data xs of Inl e \<Rightarrow> Inl e | Inr data' \<Rightarrow> merge_all data' ys)"
  by (induction xs arbitrary: data) (auto split: sum.splits)

lemma keys_lru_insert: "fst ` set (lru_insert cache k v) \<subseteq> insert k (fst ` set cache)"
proof -
  have "set (take 128 ((k, v) # cache)) \<subseteq> set ((k, v) # cache)"
    by (rule set_take_subset)
  then show ?thesis
    unfolding lru_insert_def by fastforce
qed

lemma keys_cache_mutate: "fst ` set (cache_mutate cache k v) = fst ` set cache"
  unfolding cache_mutate_def by (induction cache) auto

lemma subset_chain:
  "A \<subseteq> B \<union> C \<Longrightarrow> B \<subseteq> insert x D \<Longrightarrow> x \<in> E \<Longrightarrow> C \<subseteq> E \<Longrightarrow> A \<subseteq> D \<union> E"
  by blast

text \<open>A fragment that is not in the cache is read from its file.\<close>

lemma get_data_miss:
  assumes "(path, name) \<notin> fst ` set (data_cache st)"
  shows "case get_data fs st path name of
           Inl e \<Rightarrow> fragment fs path name = Inl e
         | Inr (m, st') \<Rightarrow>
             fragment fs path name = Inr m
             \<and> fst ` set (data_cache st') \<subseteq> insert (path, name) (fst ` set (data_cache st))
             \<and> get_cache st' = get_cache st"
proof -
  from assms have "map_of (data_cache st) (path, name) = None"
    by (simp add: map_of_eq_None_iff)
  then show ?thesis
    using keys_lru_insert[of "data_cache st" "(path, name)"]
    by (auto simp: get_data_def fragment_def split: option.splits sum.splits)
qed

lemma names_loop_new:
  assumes "distinct names"
    and "\<forall>n\<in>set names. (folder, n) \<notin> fst ` set (data_cache st)"
  shows "case names_loop fs folder names data st of
           Inl e \<Rightarrow> merge_all data (map (fragment fs folder) names) = Inl e
         | Inr (r, st') \<Rightarrow>
             merge_all data (map (fragment fs folder) names) = Inr r
             \<and> fst ` set (data_cache st') \<subseteq> fst ` set (data_cache st) \<union> {folder} \<times> set names
             \<and> get_cache st' = get_cache st"
  using assms
proof (induction names arbitrary: data st)
  case Nil
  then show ?case by simp
next
  case (Cons name names)
  from Cons.prems(2) have miss: "(folder, name) \<notin> fst ` set (data_cache st)" by simp
  show ?case
  proof (cases "get_data fs st folder name")
    case (Inl e)
    with get_data_miss[OF miss, where fs = fs] show ?thesis by simp
  next
    case (Inr p)
    obtain u st1 where p: "p = (u, st1)" by (cases p)
    from get_data_miss[OF miss, where fs = fs] Inr p have
      frag: "fragment fs folder name = Inr u"
      and keys1: "fst ` set (data_cache st1) \<subseteq> insert (folder, name) (fst ` set (data_cache st))"
      and gc1: "get_cache st1 = get_cache st"
      by simp_all
    show ?thesis
    proof (cases "update_dict_subkeys False DEFAULT_METADATA_KEY data u")
      case (Inl e)
      with Inr p frag show ?thesis
        by (simp add: merged_def del: update_dict_subkeys.simps)
    next
      case upd: (Inr q)
      obtain data' u' where q: "q = (data', u')" by (cases q)
      let ?st2 = "st1\<lparr>data_cache := cache_mutate (data_cache st1) (folder, name) u'\<rparr>"
      have keys2: "fst ` set (data_cache ?st2) \<subseteq> insert (folder, name) (fst ` set (data_cache st))"
        using keys1 by (simp add: keys_cache_mutate)
      from Cons.prems(1) have dist: "distinct names" and notin: "name \<notin> set names" by simp_all
      have fresh: "\<forall>n\<in>set names. (folder, n) \<notin> fst ` set (data_cache ?st2)"
        using Cons.prems(2) keys2 notin by auto
      from Cons.IH[OF dist fresh, where data = data']
      have IH: "case names_loop fs folder names data' ?st2 of
           Inl e \<Rightarrow> merge_all data' (map (fragment fs folder) names) = Inl e
         | Inr (r, st') \<Rightarrow>
             merge_all data' (map (fragment fs folder) names) = Inr r
             \<and> fst ` set (data_cache st') \<subseteq> fst ` set (data_cache ?st2) \<union> {folder} \<times> set names
             \<and> get_cache st' = get_cache ?st2" .
      have step: "names_loop fs folder (name # names) data st = names_loop fs folder names data' ?st2"
        using Inr p upd q by (simp del: update_dict_subkeys.simps)
      have spec: "merge_all data (map (fragment fs folder) (name # names))
                    = merge_all data' (map (fragment fs folder) names)"
        using frag upd q by (simp add: merged_def del: update_dict_subkeys.simps)
      show ?thesis
      proof (cases "names_loop fs folder names data' ?st2")
        case (Inl e)
        with IH show ?thesis unfolding step spec by simp
      next
        case res: (Inr w)
        obtain r st' where w: "w = (r, st')" by (cases w)
        from IH res w have
          m: "merge_all data' (map (fragment fs folder) names) = Inr r"
          and keys: "fst ` set (data_cache st') \<subseteq> fst ` set (data_cache ?st2) \<union> {folder} \<times> set names"
          and gc: "get_cache st' = get_cache ?st2"
          by simp_all
        have "(folder, name) \<in> {folder} \<times> set (name # names)"
          and "{folder} \<times> set names \<subseteq> {folder} \<times> set (name # names)"
          by auto
        with keys keys2 have "fst ` set (data_cache st')
            \<subseteq> fst ` set (data_cache st) \<union> {folder} \<times> set (name # names)"
          by (rule subset_chain)
        with m gc gc1 res w show ?thesis unfolding step spec by simp
      qed
    qed
  qed
qed

lemma folders_loop_new:
  assumes "distinct folders" and "distinct names"
    and "\<forall>f\<in>set folders. \<forall>n\<in>set names. (f, n) \<notin> fst ` set (data_cache st)"
  shows "case folders_loop fs folders names data st of
           Inl e \<Rightarrow>
             merge_all data (map (\<lambda>p. fragment fs (fst p) (snd p)) (List.product folders names)) = Inl e
         | Inr (r, st') \<Rightarrow>
             merge_all data (map (\<lambda>p. fragment fs (fst p) (snd p)) (List.product folders names)) = Inr r
             \<and> get_cache st' = get_cache st"
  using assms
proof (induction folders arbitrary: data st)
  case Nil
  then show ?case by simp
next
  case (Cons folder folders)
  have row: "map (\<lambda>p. fragment fs (fst p) (snd p)) (List.product (folder # folders) names)
               = map (fragment fs folder) names
                 @ map (\<lambda>p. fragment fs (fst p) (snd p)) (List.product folders names)"
    by (simp add: comp_def)
  from Cons.prems(3) have miss: "\<forall>n\<in>set names. (folder, n) \<notin> fst ` set (data_cache st)"
    by simp
  note first = names_loop_new[OF Cons.prems(2) miss, where fs = fs and data = data]
  show ?case
  proof (cases "names_loop fs folder names data st")
    case (Inl e)
    with first show ?thesis
      by (simp only: row merge_all_append) simp
  next
    case (Inr p)
    obtain data' st1 where p: "p = (data', st1)" by (cases p)
    from first Inr p have
      m1: "merge_all data (map (fragment fs folder) names) = Inr data'"
      and keys1: "fst ` set (data_cache st1) \<subseteq> fst ` set (data_cache st) \<union> {folder} \<times> set names"
      and gc1: "get_cache st1 = get_cache st"
      by simp_all
    from Cons.prems(1) have dist: "distinct folders" and notin: "folder \<notin> set folders" by simp_all
    have fresh: "\<forall>f\<in>set folders. \<forall>n\<in>set names. (f, n) \<notin> fst ` set (data_cache st1)"
    proof (intro ballI notI)
      fix f n assume f: "f \<in> set folders" and n: "n \<in> set names"
        and "(f, n) \<in> fst ` set (data_cache st1)"
      with keys1 have "(f, n) \<in> fst ` set (data_cache st) \<union> {folder} \<times> set names"
        by blast
      with Cons.prems(3) notin f n show False by auto
    qed
    from Cons.IH[OF dist Cons.prems(2) fresh, where data = data'] Inr p m1 gc1 show ?thesis
      by (simp only: row merge_all_append) (auto split: sum.splits)
  qed
qed

text \<open>
  On a new overlay object, and for folders and names that do not repeat, \<open>get\<close> returns
  the layers of the description.
\<close>

lemma get_new_overlay:
  assumes "distinct ('''' # sub_folders)" and "distinct (DEFAULT_FILENAME # names)"
  shows "map_sum id fst (get fs new_overlay (Tuple names) (Tuple sub_folders))
           = layers fs names sub_folders"
proof -
  have "\<forall>f\<in>set ('''' # sub_folders). \<forall>n\<in>set (DEFAULT_FILENAME # names).
          (f, n) \<notin> fst ` set (data_cache new_overlay)"
    by (simp add: new_overlay_def)
  note loop = folders_loop_new[OF assms this, where fs = fs and data = "[]"]
  let ?loop = "folders_loop fs ('''' # sub_folders) (DEFAULT_FILENAME # names) [] new_overlay"
  have g: "map_sum id fst (get fs new_overlay (Tuple names) (Tuple sub_folders))
             = map_sum id fst ?loop"
    by (simp add: get_def new_overlay_def split: sum.splits del: folders_loop.simps)
  show ?thesis
  proof (cases ?loop)
    case (Inl e)
    with loop show ?thesis
      unfolding g layers_def by (simp del: folders_loop.simps List.product.simps)
  next
    case (Inr p)
    obtain r st' where "p = (r, st')" by (cases p)
    with Inr loop show ?thesis
      unfolding g layers_def by (simp del: folders_loop.simps List.product.simps)
  qed
qed

section \<open>Fragments merged twice\<close>

text \<open>
  Claim C9. The order of the merges is the one of the claim, and a file that does not
  exist gives an empty mapping; the example of the claim comes out as \<^verbatim>\<open>{'x': 2}\<close> when
  the names are a tuple (a list is refused by the cache, which hashes it).
  But \<^verbatim>\<open>_get_data\<close> hands out the cached dictionary itself and the merge pops the
  metadata entry from it, so a fragment that is merged a second time (a name given twice,
  or a later call on the same object) comes without its metadata. With
  \<^verbatim>\<open>_default.json = {"l": [0]}\<close> and \<^verbatim>\<open>prod.json = {"l": [1], META: {"l": "replace"}}\<close>,
  the names \<^verbatim>\<open>('prod', 'prod')\<close> give \<^verbatim>\<open>{'l': [1, 1]}\<close> instead of \<^verbatim>\<open>{'l': [1]}\<close>, and
  after \<^verbatim>\<open>get(('prod',))\<close> the call \<^verbatim>\<open>get(('prod',), ('sub',))\<close> gives \<^verbatim>\<open>{'l': [0, 1]}\<close>.
\<close>

theorem overlay_cached_fragment:
  "map_sum id fst (get prod_files new_overlay (Tuple [''prod'']) (Tuple [])) = Inr [(''x'', PInt 2)]
   \<and> get prod_files new_overlay (List [''prod'']) (Tuple []) = Inl TypeError
   \<and> layers prod_files [''prod''] [] = Inr [(''x'', PInt 2)]
   \<and> map_sum id fst (get replace_files new_overlay (Tuple [''prod'', ''prod'']) (Tuple []))
       = Inr [(''l'', PList [PInt 1, PInt 1])]
   \<and> layers replace_files [''prod'', ''prod''] [] = Inr [(''l'', PList [PInt 1])]
   \<and> (case get replace_files new_overlay (Tuple [''prod'']) (Tuple []) of
         Inl e \<Rightarrow> False
       | Inr (r, st) \<Rightarrow>
           r = [(''l'', PList [PInt 1])]
           \<and> map_sum id fst (get replace_files st (Tuple [''prod'']) (Tuple [''sub'']))
               = Inr [(''l'', PList [PInt 0, PInt 1])])
   \<and> layers replace_files [''prod''] [''sub''] = Inr [(''l'', PList [PInt 1])]"
  by code_simp

end
